theory Spec2Isabelle
  imports Complex_Main "HOL-Library.Word"
begin

section \<open>Memory model\<close>

text \<open>
  The library works on \<^verbatim>\<open>Matrix\<close> structs that are passed by pointer and that point to
  flat buffers of doubles. Two kinds of object live in memory:
  \<^item> Matrix structs, addressed by an \<open>mref\<close> (the \<^verbatim>\<open>Matrix *\<close> arguments);
  \<^item> buffers of doubles, addressed by an \<open>addr\<close> (the \<^verbatim>\<open>double *data\<close> field). A buffer is a
    block with a length; \<^verbatim>\<open>*(data + i)\<close> is an access to cell \<open>i\<close> of the block and is
    checked against the block's length, so that an access outside the block is the
    fault \<open>OutOfBounds\<close> instead of an unspecified value.

  Doubles are modelled by \<open>real\<close>: rounding, infinities and NaN are not part of the model.

  A C \<^verbatim>\<open>int\<close> is a 32-bit word, \<open>cint\<close>: the struct's fields, the loop counters and every
  sum and product of them, so that \<open>rows + cols\<close>, \<open>rows * cols\<close> and \<open>i * cols\<close> wrap around
  as the compiled code's do. \<open>sint\<close> reads a word as the signed number it stands for;
  a comparison \<^verbatim>\<open>i < n\<close> of the code is \<open>sint i < sint n\<close>. In \<^verbatim>\<open>data + i * cols + j\<close> only the
  product is \<^verbatim>\<open>int\<close> arithmetic: the two additions are pointer arithmetic, so the cell
  accessed is \<open>sint (i * cols) + sint j\<close>.
\<close>

type_synonym cint = "32 word"
type_synonym addr = nat
type_synonym mref = nat

definition INT_MAX :: int where
  "INT_MAX = 2147483647"

record Matrix =
  rows :: cint
  cols :: cint
  data :: addr

type_synonym heap = "addr \<Rightarrow> real list option"

record state =
  mats :: "mref \<Rightarrow> Matrix"
  bufs :: heap
  out :: "string list"

text \<open>
  The null pointer is the address 0, where no block lives. An access through a pointer
  to no block is the fault \<open>InvalidPointer\<close>.
\<close>

definition NULL :: addr where
  "NULL = 0"

datatype fault = InvalidPointer | OutOfBounds

definition load :: "heap \<Rightarrow> addr \<Rightarrow> int \<Rightarrow> fault + real" where
  "load h p i =
     (case h p of
        None \<Rightarrow> Inl InvalidPointer
      | Some xs \<Rightarrow> if 0 \<le> i \<and> i < int (length xs) then Inr (xs ! nat i) else Inl OutOfBounds)"

definition store :: "heap \<Rightarrow> addr \<Rightarrow> int \<Rightarrow> real \<Rightarrow> fault + heap" where
  "store h p i v =
     (case h p of
        None \<Rightarrow> Inl InvalidPointer
      | Some xs \<Rightarrow>
          if 0 \<le> i \<and> i < int (length xs) then Inr (h(p \<mapsto> xs[nat i := v])) else Inl OutOfBounds)"

text \<open>\<^verbatim>\<open>printf\<close> appends the message to the standard output.\<close>

definition printf :: "string \<Rightarrow> state \<Rightarrow> state" where
  "printf msg s = s\<lparr>out := out s @ [msg]\<rparr>"

text \<open>Assignments to the fields of the struct behind a \<^verbatim>\<open>Matrix *\<close>.\<close>

definition set_rows :: "mref \<Rightarrow> cint \<Rightarrow> state \<Rightarrow> state" where
  "set_rows m v s = s\<lparr>mats := (mats s)(m := (mats s m)\<lparr>rows := v\<rparr>)\<rparr>"

definition set_cols :: "mref \<Rightarrow> cint \<Rightarrow> state \<Rightarrow> state" where
  "set_cols m v s = s\<lparr>mats := (mats s)(m := (mats s m)\<lparr>cols := v\<rparr>)\<rparr>"

definition set_data :: "mref \<Rightarrow> addr \<Rightarrow> state \<Rightarrow> state" where
  "set_data m p s = s\<lparr>mats := (mats s)(m := (mats s m)\<lparr>data := p\<rparr>)\<rparr>"

section \<open>Counters\<close>

text \<open>
  A counter below a bound can be incremented without wrapping: \<^verbatim>\<open>i++\<close> under \<^verbatim>\<open>i < n\<close> adds
  one. The termination proofs of the loops rest on it.
\<close>

lemma sint_increment:
  "sint (i :: cint) < sint (n :: cint) \<Longrightarrow> sint (i + 1) = sint i + 1"
proof -
  assume lt: "sint i < sint n"
  have "sint n < 2 ^ 31" using sint_lt[of n] by simp
  moreover have "- (2 ^ 31) \<le> sint i" using sint_ge[of i] by simp
  ultimately have "signed_take_bit 31 (sint i + 1) = sint i + 1"
    using lt by (intro signed_take_bit_int_eq_self) simp_all
  then show ?thesis by (simp add: sint_word_ariths)
qed

section \<open>Shape predicates\<close>

definition checkDimensions :: "Matrix \<Rightarrow> Matrix \<Rightarrow> bool" where
  "checkDimensions matrix_a matrix_b \<longleftrightarrow>
     rows matrix_a = rows matrix_b \<and> cols matrix_a = cols matrix_b"

definition isSquare :: "Matrix \<Rightarrow> bool" where
  "isSquare mat \<longleftrightarrow> rows mat = cols mat"

section \<open>Transpose\<close>

text \<open>
  The inner loop of the in-place branch, \<^verbatim>\<open>for (j = i + 1; j < matrix->cols; j++)\<close>, entered
  at \<open>j\<close>: it swaps the cells \<open>i * cols + j\<close> and \<open>j * cols + i\<close>. The loops only write
  to buffers, never to a struct, so a loop takes the struct's value and the heap.
\<close>

function transpose_swap_inner :: "Matrix \<Rightarrow> cint \<Rightarrow> cint \<Rightarrow> heap \<Rightarrow> fault + heap" where
  "transpose_swap_inner M i j h =
     (if sint j < sint (cols M) then
        (case load h (data M) (sint (i * cols M) + sint j) of
           Inl e \<Rightarrow> Inl e
         | Inr temp \<Rightarrow>
        (case load h (data M) (sint (j * cols M) + sint i) of
           Inl e \<Rightarrow> Inl e
         | Inr v \<Rightarrow>
        (case store h (data M) (sint (i * cols M) + sint j) v of
           Inl e \<Rightarrow> Inl e
         | Inr h1 \<Rightarrow>
        (case store h1 (data M) (sint (j * cols M) + sint i) temp of
           Inl e \<Rightarrow> Inl e
         | Inr h2 \<Rightarrow> transpose_swap_inner M i (j + 1) h2))))
      else Inr h)"
  by pat_completeness auto
termination
  by (relation "measure (\<lambda>(M, i, j, h). nat (sint (cols M) - sint j))")
    (auto simp: sint_increment)

text \<open>The outer loop \<^verbatim>\<open>for (i = 0; i < matrix->rows; i++)\<close>, entered at \<open>i\<close>.\<close>

function transpose_swap_outer :: "Matrix \<Rightarrow> cint \<Rightarrow> heap \<Rightarrow> fault + heap" where
  "transpose_swap_outer M i h =
     (if sint i < sint (rows M) then
        (case transpose_swap_inner M i (i + 1) h of
           Inl e \<Rightarrow> Inl e
         | Inr h' \<Rightarrow> transpose_swap_outer M (i + 1) h')
      else Inr h)"
  by pat_completeness auto
termination
  by (relation "measure (\<lambda>(M, i, h). nat (sint (rows M) - sint i))")
    (auto simp: sint_increment)

text \<open>
  The loops of the out-of-place branch: cell \<open>j * result->cols + i\<close> of the result
  receives cell \<open>i * matrix->cols + j\<close> of the input.
\<close>

function transpose_copy_inner :: "Matrix \<Rightarrow> Matrix \<Rightarrow> cint \<Rightarrow> cint \<Rightarrow> heap \<Rightarrow> fault + heap" where
  "transpose_copy_inner M R i j h =
     (if sint j < sint (cols M) then
        (case load h (data M) (sint (i * cols M) + sint j) of
           Inl e \<Rightarrow> Inl e
         | Inr v \<Rightarrow>
        (case store h (data R) (sint (j * cols R) + sint i) v of
           Inl e \<Rightarrow> Inl e
         | Inr h' \<Rightarrow> transpose_copy_inner M R i (j + 1) h'))
      else Inr h)"
  by pat_completeness auto
termination
  by (relation "measure (\<lambda>(M, R, i, j, h). nat (sint (cols M) - sint j))")
    (auto simp: sint_increment)

function transpose_copy_outer :: "Matrix \<Rightarrow> Matrix \<Rightarrow> cint \<Rightarrow> heap \<Rightarrow> fault + heap" where
  "transpose_copy_outer M R i h =
     (if sint i < sint (rows M) then
        (case transpose_copy_inner M R i 0 h of
           Inl e \<Rightarrow> Inl e
         | Inr h' \<Rightarrow> transpose_copy_outer M R (i + 1) h')
      else Inr h)"
  by pat_completeness auto
termination
  by (relation "measure (\<lambda>(M, R, i, h). nat (sint (rows M) - sint i))")
    (auto simp: sint_increment)

text \<open>
  The size asked of \<^verbatim>\<open>malloc\<close> is \<^verbatim>\<open>result->rows * result->cols * sizeof(double)\<close>: the
  \<^verbatim>\<open>int\<close> product \<open>n\<close>, converted to the 64-bit \<^verbatim>\<open>size_t\<close> and multiplied by 8 there.
  \<open>malloc_cells n\<close> is the number of doubles that fit into that many bytes; it is \<open>n\<close>
  itself when \<open>n\<close> is not negative.

  The answer of \<^verbatim>\<open>malloc\<close> is an input of the model: \<open>None\<close> is the null pointer,
  \<open>Some (p, junk)\<close> is a new block at \<open>p\<close> whose cells hold the indeterminate values
  \<open>junk 0\<close>, \<open>junk 1\<close>, ... The pointer is stored in \<^verbatim>\<open>result->data\<close> before it is tested.
\<close>

definition malloc_cells :: "cint \<Rightarrow> nat" where
  "malloc_cells n = nat (((sint n mod 2 ^ 64) * 8) mod 2 ^ 64 div 8)"

type_synonym malloc_result = "(addr \<times> (nat \<Rightarrow> real)) option"

definition transposeMatrix :: "mref \<Rightarrow> mref \<Rightarrow> malloc_result \<Rightarrow> state \<Rightarrow> fault + (bool \<times> state)" where
  "transposeMatrix matrix result malloc s =
     (if isSquare (mats s matrix) then
        (case transpose_swap_outer (mats s matrix) 0 (bufs s) of
           Inl e \<Rightarrow> Inl e
         | Inr h \<Rightarrow>
             let s1 = s\<lparr>bufs := h\<rparr>;
                 s2 = set_rows result (rows (mats s1 matrix)) s1;
                 s3 = set_cols result (cols (mats s2 matrix)) s2;
                 s4 = set_data result (data (mats s3 matrix)) s3
             in Inr (True, s4))
      else
        let s1 = set_rows result (cols (mats s matrix)) s;
            s2 = set_cols result (rows (mats s1 matrix)) s1
        in (case malloc of
              None \<Rightarrow>
                let s3 = set_data result NULL s2
                in Inr (False, printf (''Memory allocation failed for transposed matrix.'' @ [CHR 0x0A]) s3)
            | Some (p, junk) \<Rightarrow>
                let n = malloc_cells (rows (mats s2 result) * cols (mats s2 result));
                    s3 = s2\<lparr>bufs := (bufs s2)(p \<mapsto> map junk [0..<n])\<rparr>;
                    s4 = set_data result p s3
                in (case transpose_copy_outer (mats s4 matrix) (mats s4 result) 0 (bufs s4) of
                      Inl e \<Rightarrow> Inl e
                    | Inr h \<Rightarrow> Inr (True, s4\<lparr>bufs := h\<rparr>))))"

section \<open>Scalar multiply\<close>

text \<open>The loop \<^verbatim>\<open>for (i = 0; i < matrix->rows + matrix->cols; i++)\<close>, entered at \<open>i\<close>.\<close>

function multiplyScalar_loop :: "Matrix \<Rightarrow> real \<Rightarrow> cint \<Rightarrow> heap \<Rightarrow> fault + heap" where
  "multiplyScalar_loop M scalar i h =
     (if sint i < sint (rows M + cols M) then
        (case load h (data M) (sint i) of
           Inl e \<Rightarrow> Inl e
         | Inr v \<Rightarrow>
        (case store h (data M) (sint i) (v * scalar) of
           Inl e \<Rightarrow> Inl e
         | Inr h' \<Rightarrow> multiplyScalar_loop M scalar (i + 1) h'))
      else Inr h)"
  by pat_completeness auto
termination
  by (relation "measure (\<lambda>(M, scalar, i, h). nat (sint (rows M + cols M) - sint i))")
    (auto simp: sint_increment)

definition multiplyScalar :: "mref \<Rightarrow> real \<Rightarrow> state \<Rightarrow> fault + state" where
  "multiplyScalar matrix scalar s =
     (case multiplyScalar_loop (mats s matrix) scalar 0 (bufs s) of
        Inl e \<Rightarrow> Inl e
      | Inr h \<Rightarrow> Inr (s\<lparr>bufs := h\<rparr>))"

section \<open>Addition and subtraction\<close>

text \<open>The loop \<^verbatim>\<open>for (i = 0; i < matrix_a->rows * matrix_a->cols; i++)\<close>, entered at \<open>i\<close>.\<close>

function sumMatrices_loop :: "Matrix \<Rightarrow> Matrix \<Rightarrow> Matrix \<Rightarrow> cint \<Rightarrow> heap \<Rightarrow> fault + heap" where
  "sumMatrices_loop A B R i h =
     (if sint i < sint (rows A * cols A) then
        (case load h (data A) (sint i) of
           Inl e \<Rightarrow> Inl e
         | Inr x \<Rightarrow>
        (case load h (data B) (sint i) of
           Inl e \<Rightarrow> Inl e
         | Inr y \<Rightarrow>
        (case store h (data R) (sint i) (x + y) of
           Inl e \<Rightarrow> Inl e
         | Inr h' \<Rightarrow> sumMatrices_loop A B R (i + 1) h')))
      else Inr h)"
  by pat_completeness auto
termination
  by (relation "measure (\<lambda>(A, B, R, i, h). nat (sint (rows A * cols A) - sint i))")
    (auto simp: sint_increment)

definition sumMatrices :: "mref \<Rightarrow> mref \<Rightarrow> bool \<Rightarrow> mref \<Rightarrow> state \<Rightarrow> fault + (bool \<times> state)" where
  "sumMatrices matrix_a matrix_b subtraction result s =
     (if \<not> checkDimensions (mats s matrix_a) (mats s matrix_b) then
        Inr (False, printf ''Mismatch in the dimensions when summing'' s)
      else
        let s1 = set_rows result (rows (mats s matrix_a)) s;
            s2 = set_cols result (cols (mats s1 matrix_a)) s1
        in (case (if subtraction then multiplyScalar matrix_b (- 1) s2 else Inr s2) of
              Inl e \<Rightarrow> Inl e
            | Inr s3 \<Rightarrow>
                (case sumMatrices_loop (mats s3 matrix_a) (mats s3 matrix_b) (mats s3 result) 0 (bufs s3) of
                   Inl e \<Rightarrow> Inl e
                 | Inr h \<Rightarrow> Inr (True, s3\<lparr>bufs := h\<rparr>))))"

section \<open>Matrix product\<close>

text \<open>
  The innermost loop \<^verbatim>\<open>for (k = 0; k < matrix_a->cols; k++)\<close>, entered at \<open>k\<close>: it adds
  \<open>a[r][k] * b[k][c]\<close> to cell \<open>r * result->cols + c\<close> of the result.
\<close>

function multiplyMatrices_k :: "Matrix \<Rightarrow> Matrix \<Rightarrow> Matrix \<Rightarrow> cint \<Rightarrow> cint \<Rightarrow> cint \<Rightarrow> heap \<Rightarrow> fault + heap" where
  "multiplyMatrices_k A B R r c k h =
     (if sint k < sint (cols A) then
        (case load h (data A) (sint (r * cols A) + sint k) of
           Inl e \<Rightarrow> Inl e
         | Inr x \<Rightarrow>
        (case load h (data B) (sint (k * cols B) + sint c) of
           Inl e \<Rightarrow> Inl e
         | Inr y \<Rightarrow>
        (case load h (data R) (sint (r * cols R) + sint c) of
           Inl e \<Rightarrow> Inl e
         | Inr acc \<Rightarrow>
        (case store h (data R) (sint (r * cols R) + sint c) (acc + x * y) of
           Inl e \<Rightarrow> Inl e
         | Inr h' \<Rightarrow> multiplyMatrices_k A B R r c (k + 1) h'))))
      else Inr h)"
  by pat_completeness auto
termination
  by (relation "measure (\<lambda>(A, B, R, r, c, k, h). nat (sint (cols A) - sint k))")
    (auto simp: sint_increment)

function multiplyMatrices_c :: "Matrix \<Rightarrow> Matrix \<Rightarrow> Matrix \<Rightarrow> cint \<Rightarrow> cint \<Rightarrow> heap \<Rightarrow> fault + heap" where
  "multiplyMatrices_c A B R r c h =
     (if sint c < sint (cols B) then
        (case store h (data R) (sint (r * cols R) + sint c) 0 of
           Inl e \<Rightarrow> Inl e
         | Inr h1 \<Rightarrow>
        (case multiplyMatrices_k A B R r c 0 h1 of
           Inl e \<Rightarrow> Inl e
         | Inr h2 \<Rightarrow> multiplyMatrices_c A B R r (c + 1) h2))
      else Inr h)"
  by pat_completeness auto
termination
  by (relation "measure (\<lambda>(A, B, R, r, c, h). nat (sint (cols B) - sint c))")
    (auto simp: sint_increment)

function multiplyMatrices_r :: "Matrix \<Rightarrow> Matrix \<Rightarrow> Matrix \<Rightarrow> cint \<Rightarrow> heap \<Rightarrow> fault + heap" where
  "multiplyMatrices_r A B R r h =
     (if sint r < sint (rows A) then
        (case multiplyMatrices_c A B R r 0 h of
           Inl e \<Rightarrow> Inl e
         | Inr h' \<Rightarrow> multiplyMatrices_r A B R (r + 1) h')
      else Inr h)"
  by pat_completeness auto
termination
  by (relation "measure (\<lambda>(A, B, R, r, h). nat (sint (rows A) - sint r))")
    (auto simp: sint_increment)

definition multiplyMatrices :: "mref \<Rightarrow> mref \<Rightarrow> mref \<Rightarrow> state \<Rightarrow> fault + (bool \<times> state)" where
  "multiplyMatrices matrix_a matrix_b result s =
     (if cols (mats s matrix_a) \<noteq> rows (mats s matrix_b) then
        Inr (False, printf ''Incompatible dimensions in matrix multiplication'' s)
      else
        let s1 = set_rows result (cols (mats s matrix_a)) s;
            s2 = set_cols result (cols (mats s1 matrix_b)) s1
        in (case multiplyMatrices_r (mats s2 matrix_a) (mats s2 matrix_b) (mats s2 result) 0 (bufs s2) of
              Inl e \<Rightarrow> Inl e
            | Inr h \<Rightarrow> Inr (True, s2\<lparr>bufs := h\<rparr>)))"

section \<open>Observations and well-formed inputs\<close>

text \<open>
  What a caller sees of a call: the value returned, the struct behind a pointer and the
  contents of a buffer afterwards. A call that faults shows nothing.
\<close>

definition returned :: "fault + (bool \<times> state) \<Rightarrow> bool option" where
  "returned r = (case r of Inl e \<Rightarrow> None | Inr (ok, s) \<Rightarrow> Some ok)"

definition matrix_after :: "fault + (bool \<times> state) \<Rightarrow> mref \<Rightarrow> Matrix option" where
  "matrix_after r m = (case r of Inl e \<Rightarrow> None | Inr (ok, s) \<Rightarrow> Some (mats s m))"

definition buffer_after :: "fault + (bool \<times> state) \<Rightarrow> addr \<Rightarrow> real list option" where
  "buffer_after r p = (case r of Inl e \<Rightarrow> None | Inr (ok, s) \<Rightarrow> bufs s p)"

definition scaled_buffer :: "fault + state \<Rightarrow> addr \<Rightarrow> real list option" where
  "scaled_buffer r p = (case r of Inl e \<Rightarrow> None | Inr s \<Rightarrow> bufs s p)"

text \<open>
  Row-major addressing: \<open>cell w xs a b\<close> is the element in row \<open>a\<close> and column \<open>b\<close> of a
  buffer \<open>xs\<close> whose rows are \<open>w\<close> long, the C expression \<^verbatim>\<open>*(data + a * w + b)\<close>.
\<close>

definition cell :: "int \<Rightarrow> real list \<Rightarrow> int \<Rightarrow> int \<Rightarrow> real" where
  "cell w xs a b = xs ! nat (a * w + b)"

text \<open>
  The partial sum of the product's element \<open>(r, c)\<close> from the index \<open>k\<close> on:
  \<open>a[r][k] * b[k][c] + ... + a[r][cols A - 1] * b[cols A - 1][c]\<close>.
\<close>

definition dot :: "Matrix \<Rightarrow> Matrix \<Rightarrow> real list \<Rightarrow> real list \<Rightarrow> int \<Rightarrow> int \<Rightarrow> int \<Rightarrow> real" where
  "dot A B xa xb r c k =
     (\<Sum>k' = k..<sint (cols A). cell (sint (cols A)) xa r k' * cell (sint (cols B)) xb k' c)"

text \<open>
  The data model of the specification: a matrix has positive dimensions and its buffer
  holds exactly \<open>rows * cols\<close> values, the product of the two numbers (not the wrapped
  product of the words). \<open>matrix_at s m xs\<close> says that the struct behind \<open>m\<close> is such
  a matrix in state \<open>s\<close> and that its buffer holds the values \<open>xs\<close>.
\<close>

definition matrix_at :: "state \<Rightarrow> mref \<Rightarrow> real list \<Rightarrow> bool" where
  "matrix_at s m xs \<longleftrightarrow>
     0 < sint (rows (mats s m)) \<and> 0 < sint (cols (mats s m)) \<and>
     bufs s (data (mats s m)) = Some xs \<and>
     int (length xs) = sint (rows (mats s m)) * sint (cols (mats s m))"

text \<open>
  \<open>in_int_range s m\<close> says that the number of elements of the matrix behind \<open>m\<close> is a
  value of the C \<^verbatim>\<open>int\<close>, so that the code can compute it and every index below it
  without overflow.
\<close>

definition in_int_range :: "state \<Rightarrow> mref \<Rightarrow> bool" where
  "in_int_range s m \<longleftrightarrow> sint (rows (mats s m)) * sint (cols (mats s m)) \<le> INT_MAX"

text \<open>
  A state in the style of the program's \<^verbatim>\<open>main\<close>: structs 1 to 7 with a buffer each, the
  2 x 3 matrices 1 and 2, the 3 x 2 matrix 3, the result matrices 4 (2 x 3) and 5 (2 x 2),
  the square matrix 6 and the row vector 7. Every other struct is not initialised and
  points to no buffer.
\<close>

definition example_state :: state where
  "example_state =
     \<lparr>mats = (\<lambda>_. \<lparr>rows = 0, cols = 0, data = 0\<rparr>)
        (1 := \<lparr>rows = 2, cols = 3, data = 1\<rparr>,
         2 := \<lparr>rows = 2, cols = 3, data = 2\<rparr>,
         3 := \<lparr>rows = 3, cols = 2, data = 3\<rparr>,
         4 := \<lparr>rows = 2, cols = 3, data = 4\<rparr>,
         5 := \<lparr>rows = 2, cols = 2, data = 5\<rparr>,
         6 := \<lparr>rows = 2, cols = 2, data = 6\<rparr>,
         7 := \<lparr>rows = 1, cols = 3, data = 7\<rparr>),
      bufs = [1 \<mapsto> [1, 2, 3, 4, 5, 6],
              2 \<mapsto> [6, 5, 4, 3, 2, 1],
              3 \<mapsto> [7, 8, 9, 10, 11, 12],
              4 \<mapsto> [0, 0, 0, 0, 0, 0],
              5 \<mapsto> [0, 0, 0, 0],
              6 \<mapsto> [1, 2, 3, 4],
              7 \<mapsto> [1, 2, 3]],
      out = []\<rparr>"

section \<open>Arithmetic of the C int\<close>

text \<open>
  A sum or product that lies between 0 and \<open>INT_MAX\<close> is computed exactly, and a sum or
  product that is not negative never wraps to something larger.
\<close>

lemma sint_mult_exact:
  "0 \<le> sint (a :: cint) * sint (b :: cint) \<Longrightarrow> sint a * sint b \<le> INT_MAX \<Longrightarrow>
   sint (a * b) = sint a * sint b"
proof -
  assume "0 \<le> sint a * sint b" "sint a * sint b \<le> INT_MAX"
  then have "signed_take_bit 31 (sint a * sint b) = sint a * sint b"
    by (intro signed_take_bit_int_eq_self) (simp_all add: INT_MAX_def)
  then show ?thesis by (simp add: sint_word_ariths)
qed

lemma sint_add_exact:
  "0 \<le> sint (a :: cint) + sint (b :: cint) \<Longrightarrow> sint a + sint b \<le> INT_MAX \<Longrightarrow>
   sint (a + b) = sint a + sint b"
proof -
  assume "0 \<le> sint a + sint b" "sint a + sint b \<le> INT_MAX"
  then have "signed_take_bit 31 (sint a + sint b) = sint a + sint b"
    by (intro signed_take_bit_int_eq_self) (simp_all add: INT_MAX_def)
  then show ?thesis by (simp add: sint_word_ariths)
qed

lemma sint_mult_le:
  "0 \<le> sint (a :: cint) * sint (b :: cint) \<Longrightarrow> sint (a * b) \<le> sint a * sint b"
proof -
  assume "0 \<le> sint a * sint b"
  then have "signed_take_bit 31 (sint a * sint b) \<le> sint a * sint b"
    by (simp add: signed_take_bit_int_less_eq_self_iff)
  then show ?thesis by (simp add: sint_word_ariths)
qed

lemma sint_add_le:
  "0 \<le> sint (a :: cint) + sint (b :: cint) \<Longrightarrow> sint (a + b) \<le> sint a + sint b"
proof -
  assume "0 \<le> sint a + sint b"
  then have "signed_take_bit 31 (sint a + sint b) \<le> sint a + sint b"
    by (simp add: signed_take_bit_int_less_eq_self_iff)
  then show ?thesis by (simp add: sint_word_ariths)
qed

section \<open>Memory accesses\<close>

lemma load_in_range:
  "h p = Some xs \<Longrightarrow> 0 \<le> i \<Longrightarrow> i < int (length xs) \<Longrightarrow> load h p i = Inr (xs ! nat i)"
  by (simp add: load_def)

lemma load_past_end:
  "h p = Some xs \<Longrightarrow> int (length xs) \<le> i \<Longrightarrow> load h p i = Inl OutOfBounds"
  by (simp add: load_def)

lemma store_in_range:
  "h p = Some xs \<Longrightarrow> 0 \<le> i \<Longrightarrow> i < int (length xs) \<Longrightarrow>
   store h p i v = Inr (h(p \<mapsto> xs[nat i := v]))"
  by (simp add: store_def)

lemmas example_defs =
  example_state_def matrix_at_def checkDimensions_def isSquare_def
  returned_def matrix_after_def buffer_after_def scaled_buffer_def in_int_range_def INT_MAX_def
  load_def store_def printf_def set_rows_def set_cols_def set_data_def

section \<open>The loops of scalar multiply and of addition\<close>

declare multiplyScalar_loop.simps [simp del]
declare sumMatrices_loop.simps [simp del]

text \<open>
  When the buffer is shorter than the loop's bound, the scaling loop runs off its end: the
  iteration at \<open>i = length\<close> reads outside the block.
\<close>

lemma multiplyScalar_loop_overrun:
  "h (data M) = Some xs \<Longrightarrow> 0 \<le> sint i \<Longrightarrow> sint i \<le> int (length xs) \<Longrightarrow>
   int (length xs) < sint (rows M + cols M) \<Longrightarrow>
   multiplyScalar_loop M scalar i h = Inl OutOfBounds"
proof (induction M scalar i h arbitrary: xs rule: multiplyScalar_loop.induct)
  case (1 M scalar i h)
  from "1.prems" have enter: "sint i < sint (rows M + cols M)" by linarith
  note next_i = sint_increment[OF enter]
  show ?case
  proof (cases "sint i = int (length xs)")
    case True
    with "1.prems" have "load h (data M) (sint i) = Inl OutOfBounds"
      by (simp add: load_past_end)
    with enter show ?thesis
      by (subst multiplyScalar_loop.simps) simp
  next
    case False
    with "1.prems" have lt: "sint i < int (length xs)" by linarith
    let ?v = "xs ! nat (sint i)"
    let ?h = "h(data M \<mapsto> xs[nat (sint i) := ?v * scalar])"
    have ld: "load h (data M) (sint i) = Inr ?v"
      using "1.prems" lt by (simp add: load_in_range)
    have st: "store h (data M) (sint i) (?v * scalar) = Inr ?h"
      using "1.prems" lt by (simp add: store_in_range)
    have "multiplyScalar_loop M scalar (i + 1) ?h = Inl OutOfBounds"
      using "1.prems" lt next_i
      by (intro "1.IH"[OF enter ld st, of "xs[nat (sint i) := ?v * scalar]"]) simp_all
    with enter ld st show ?thesis
      by (subst multiplyScalar_loop.simps) simp
  qed
qed

text \<open>
  When the buffer has at least as many cells as the loop's bound \<open>rows + cols\<close> (the
  wrapped sum), the scaling loop entered at \<open>i\<close> multiplies the cells from \<open>i\<close> up to the
  bound and leaves every other cell as it was.
\<close>

lemma multiplyScalar_loop_spec:
  "h (data M) = Some xs \<Longrightarrow> sint (rows M + cols M) \<le> int (length xs) \<Longrightarrow> 0 \<le> sint i \<Longrightarrow>
   \<exists>ys. multiplyScalar_loop M scalar i h = Inr (h(data M \<mapsto> ys)) \<and> length ys = length xs \<and>
        (\<forall>k. k < length xs \<longrightarrow>
           ys ! k = (if sint i \<le> int k \<and> int k < sint (rows M + cols M) then xs ! k * scalar
                     else xs ! k))"
proof (induction M scalar i h arbitrary: xs rule: multiplyScalar_loop.induct)
  case (1 M scalar i h)
  let ?n = "sint (rows M + cols M)"
  show ?case
  proof (cases "sint i < ?n")
    case False
    then show ?thesis
      using "1.prems" by (subst multiplyScalar_loop.simps) (auto intro!: exI[of _ xs])
  next
    case True
    note next_i = sint_increment[OF True]
    let ?v = "xs ! nat (sint i)"
    let ?xs = "xs[nat (sint i) := ?v * scalar]"
    let ?h = "h(data M \<mapsto> ?xs)"
    have ld: "load h (data M) (sint i) = Inr ?v"
      using "1.prems" True by (simp add: load_in_range)
    have st: "store h (data M) (sint i) (?v * scalar) = Inr ?h"
      using "1.prems" True by (simp add: store_in_range)
    have "\<exists>ys. multiplyScalar_loop M scalar (i + 1) ?h = Inr (?h(data M \<mapsto> ys)) \<and>
            length ys = length ?xs \<and>
            (\<forall>k. k < length ?xs \<longrightarrow>
               ys ! k = (if sint (i + 1) \<le> int k \<and> int k < ?n then ?xs ! k * scalar
                         else ?xs ! k))"
      using "1.prems" True next_i by (intro "1.IH"[OF True ld st]) simp_all
    then obtain ys where run: "multiplyScalar_loop M scalar (i + 1) ?h = Inr (h(data M \<mapsto> ys))"
      and len: "length ys = length xs"
      and cells: "\<And>k. k < length xs \<Longrightarrow>
               ys ! k = (if sint i + 1 \<le> int k \<and> int k < ?n then ?xs ! k * scalar
                         else ?xs ! k)"
      using next_i by auto
    have "\<forall>k. k < length xs \<longrightarrow>
           ys ! k = (if sint i \<le> int k \<and> int k < ?n then xs ! k * scalar else xs ! k)"
    proof (intro allI impI)
      fix k assume k: "k < length xs"
      show "ys ! k = (if sint i \<le> int k \<and> int k < ?n then xs ! k * scalar else xs ! k)"
      proof (cases "int k = sint i")
        case eq: True
        then have "nat (sint i) = k" by simp
        with cells[OF k] k eq True show ?thesis by auto
      next
        case False
        then have "nat (sint i) \<noteq> k" using "1.prems" by auto
        with cells[OF k] k False show ?thesis by auto
      qed
    qed
    with run len True ld st show ?thesis
      by (subst multiplyScalar_loop.simps) (auto intro!: exI[of _ ys])
  qed
qed

text \<open>
  The addition loop entered at \<open>i\<close>, with a result buffer apart from both operands' and
  three buffers with at least as many cells as the loop's bound \<open>rows * cols\<close> (the wrapped
  product): the cells from \<open>i\<close> up to the bound receive the sums, every other cell of the
  result stays, and no other buffer is written.
\<close>

lemma sumMatrices_loop_spec:
  "h (data A) = Some xa \<Longrightarrow> h (data B) = Some xb \<Longrightarrow> h (data R) = Some xr \<Longrightarrow>
   data R \<noteq> data A \<Longrightarrow> data R \<noteq> data B \<Longrightarrow>
   sint (rows A * cols A) \<le> int (length xa) \<Longrightarrow> sint (rows A * cols A) \<le> int (length xb) \<Longrightarrow>
   sint (rows A * cols A) \<le> int (length xr) \<Longrightarrow> 0 \<le> sint i \<Longrightarrow>
   \<exists>ys. sumMatrices_loop A B R i h = Inr (h(data R \<mapsto> ys)) \<and> length ys = length xr \<and>
        (\<forall>k. k < length xr \<longrightarrow>
           ys ! k = (if sint i \<le> int k \<and> int k < sint (rows A * cols A) then xa ! k + xb ! k
                     else xr ! k))"
proof (induction A B R i h arbitrary: xr rule: sumMatrices_loop.induct)
  case (1 A B R i h)
  let ?n = "sint (rows A * cols A)"
  show ?case
  proof (cases "sint i < ?n")
    case False
    then show ?thesis
      using "1.prems" by (subst sumMatrices_loop.simps) (auto intro!: exI[of _ xr])
  next
    case True
    note next_i = sint_increment[OF True]
    let ?v = "xa ! nat (sint i) + xb ! nat (sint i)"
    let ?xr = "xr[nat (sint i) := ?v]"
    let ?h = "h(data R \<mapsto> ?xr)"
    have la: "load h (data A) (sint i) = Inr (xa ! nat (sint i))"
      using "1.prems" True by (simp add: load_in_range)
    have lb: "load h (data B) (sint i) = Inr (xb ! nat (sint i))"
      using "1.prems" True by (simp add: load_in_range)
    have st: "store h (data R) (sint i) ?v = Inr ?h"
      using "1.prems" True by (simp add: store_in_range)
    have "\<exists>ys. sumMatrices_loop A B R (i + 1) ?h = Inr (?h(data R \<mapsto> ys)) \<and>
            length ys = length ?xr \<and>
            (\<forall>k. k < length ?xr \<longrightarrow>
               ys ! k = (if sint (i + 1) \<le> int k \<and> int k < ?n then xa ! k + xb ! k
                         else ?xr ! k))"
      using "1.prems" True next_i by (intro "1.IH"[OF True la lb st]) simp_all
    then obtain ys where run: "sumMatrices_loop A B R (i + 1) ?h = Inr (h(data R \<mapsto> ys))"
      and len: "length ys = length xr"
      and cells: "\<And>k. k < length xr \<Longrightarrow>
               ys ! k = (if sint i + 1 \<le> int k \<and> int k < ?n then xa ! k + xb ! k
                         else ?xr ! k)"
      using next_i by auto
    have "\<forall>k. k < length xr \<longrightarrow>
           ys ! k = (if sint i \<le> int k \<and> int k < ?n then xa ! k + xb ! k else xr ! k)"
    proof (intro allI impI)
      fix k assume k: "k < length xr"
      show "ys ! k = (if sint i \<le> int k \<and> int k < ?n then xa ! k + xb ! k else xr ! k)"
      proof (cases "int k = sint i")
        case eq: True
        then have "nat (sint i) = k" by simp
        with cells[OF k] k eq True show ?thesis by auto
      next
        case False
        then have "nat (sint i) \<noteq> k" using "1.prems" by auto
        with cells[OF k] k False show ?thesis by auto
      qed
    qed
    with run len True la lb st show ?thesis
      by (subst sumMatrices_loop.simps) (auto intro!: exI[of _ ys])
  qed
qed

text \<open>
  Beyond \<open>INT_MAX\<close> the bounds wrap, as they do in the compiled code: for a
  2147483647 x 1 matrix the sum \<open>rows + cols\<close> is negative and the scaling loop makes no
  access at all; for a 46341 x 46341 matrix the product \<open>rows * cols\<close> is negative and the
  addition loop stores nothing.
\<close>

lemma multiplyScalar_loop_wraps:
  "rows M = 2147483647 \<Longrightarrow> cols M = 1 \<Longrightarrow> multiplyScalar_loop M scalar 0 h = Inr h"
  by (subst multiplyScalar_loop.simps) simp

lemma sumMatrices_loop_wraps:
  "rows A = 46341 \<Longrightarrow> cols A = 46341 \<Longrightarrow> sumMatrices_loop A B R 0 h = Inr h"
  by (subst sumMatrices_loop.simps) simp

section \<open>Row-major indexing\<close>

lemma idx_bounds:
  fixes a b m w :: int
  assumes "0 \<le> a" "a < m" "0 \<le> b" "b < w"
  shows "0 \<le> a * w + b" and "a * w + b < m * w"
proof -
  have w: "0 \<le> w" using assms by linarith
  with assms show "0 \<le> a * w + b" by simp
  have "(a + 1) * w \<le> m * w"
    using assms w by (intro mult_right_mono) simp_all
  then show "a * w + b < m * w"
    using assms by (simp add: algebra_simps)
qed

lemma idx_inj:
  fixes a b c d w :: int
  assumes "0 \<le> b" "b < w" "0 \<le> d" "d < w" "a * w + b = c * w + d"
  shows "a = c \<and> b = d"
proof -
  have "(a * w + b) div w = a" "(c * w + d) div w = c"
    using assms(1-4) by simp_all
  then have "a = c" using assms(5) by metis
  with assms show ?thesis by simp
qed

lemma cell_update:
  assumes len: "int (length xs) = m * w"
    and ab: "0 \<le> a" "a < m" "0 \<le> b" "b < w"
    and cd: "0 \<le> c" "c < m" "0 \<le> d" "d < w"
  shows "cell w (xs[nat (c * w + d) := v]) a b = (if a = c \<and> b = d then v else cell w xs a b)"
proof (cases "a = c \<and> b = d")
  case True
  have "nat (c * w + d) < length xs"
    using idx_bounds[OF cd] len by linarith
  with True show ?thesis by (simp add: cell_def)
next
  case False
  have "a * w + b \<noteq> c * w + d"
    using idx_inj[of b w d a c] ab cd False by blast
  moreover have "0 \<le> a * w + b" "0 \<le> c * w + d"
    using idx_bounds(1)[OF ab] idx_bounds(1)[OF cd] by simp_all
  ultimately have "nat (c * w + d) \<noteq> nat (a * w + b)" by linarith
  with False show ?thesis by (auto simp: cell_def)
qed

lemma load_cell:
  assumes "h p = Some xs" "int (length xs) = m * w" "0 \<le> a" "a < m" "0 \<le> b" "b < w"
  shows "load h p (a * w + b) = Inr (cell w xs a b)"
proof -
  have "0 \<le> a * w + b" "a * w + b < int (length xs)"
    using idx_bounds[of a m b w] assms by simp_all
  with assms(1) show ?thesis by (simp add: load_in_range cell_def)
qed

lemma store_cell:
  assumes "h p = Some xs" "int (length xs) = m * w" "0 \<le> a" "a < m" "0 \<le> b" "b < w"
  shows "store h p (a * w + b) v = Inr (h(p \<mapsto> xs[nat (a * w + b) := v]))"
proof -
  have "0 \<le> a * w + b" "a * w + b < int (length xs)"
    using idx_bounds[of a m b w] assms by simp_all
  with assms(1) show ?thesis by (simp add: store_in_range)
qed

section \<open>The loops of transpose\<close>

text \<open>
  The index \<open>i * cols + j\<close> as the code computes it, with the product in the C \<^verbatim>\<open>int\<close>: inside
  a matrix whose number of elements is at most \<open>INT_MAX\<close> the product does not wrap.
\<close>

lemma index32:
  assumes "0 \<le> sint (a :: cint)" "sint a < m" "0 \<le> sint (b :: cint)" "sint b < sint (c :: cint)"
    and "m * sint c \<le> INT_MAX"
  shows "sint (a * c) + sint b = sint a * sint c + sint b"
proof -
  have c: "0 \<le> sint c" using assms by linarith
  have "0 \<le> sint a * sint c" using assms(1) c by simp
  moreover have "sint a * sint c \<le> m * sint c"
    using assms(2) c by (intro mult_right_mono) simp_all
  ultimately have "sint (a * c) = sint a * sint c"
    using assms(5) by (intro sint_mult_exact) simp_all
  then show ?thesis by simp
qed

lemma load_cell32:
  fixes a b c :: cint
  assumes "h p = Some xs" "int (length xs) = m * sint c" "m * sint c \<le> INT_MAX"
    and "0 \<le> sint a" "sint a < m" "0 \<le> sint b" "sint b < sint c"
  shows "load h p (sint (a * c) + sint b) = Inr (cell (sint c) xs (sint a) (sint b))"
proof -
  have "load h p (sint a * sint c + sint b) = Inr (cell (sint c) xs (sint a) (sint b))"
    using assms by (intro load_cell[where m = m]) simp_all
  then show ?thesis using index32[OF assms(4,5,6,7,3)] by simp
qed

lemma store_cell32:
  fixes a b c :: cint
  assumes "h p = Some xs" "int (length xs) = m * sint c" "m * sint c \<le> INT_MAX"
    and "0 \<le> sint a" "sint a < m" "0 \<le> sint b" "sint b < sint c"
  shows "store h p (sint (a * c) + sint b) v =
           Inr (h(p \<mapsto> xs[nat (sint a * sint c + sint b) := v]))"
proof -
  have "store h p (sint a * sint c + sint b) v =
          Inr (h(p \<mapsto> xs[nat (sint a * sint c + sint b) := v]))"
    using assms by (intro store_cell[where m = m]) simp_all
  then show ?thesis using index32[OF assms(4,5,6,7,3)] by simp
qed

declare transpose_swap_inner.simps [simp del]
declare transpose_swap_outer.simps [simp del]
declare transpose_copy_inner.simps [simp del]
declare transpose_copy_outer.simps [simp del]

lemma transpose_swap_inner_spec:
  "h (data M) = Some xs \<Longrightarrow> int (length xs) = sint (cols M) * sint (cols M) \<Longrightarrow>
   sint (cols M) * sint (cols M) \<le> INT_MAX \<Longrightarrow>
   0 \<le> sint i \<Longrightarrow> sint i < sint j \<Longrightarrow> sint j \<le> sint (cols M) \<Longrightarrow>
   \<exists>ys. transpose_swap_inner M i j h = Inr (h(data M \<mapsto> ys)) \<and> length ys = length xs \<and>
        (\<forall>a b. 0 \<le> a \<and> a < sint (cols M) \<and> 0 \<le> b \<and> b < sint (cols M) \<longrightarrow>
           cell (sint (cols M)) ys a b =
             (if (a = sint i \<and> sint j \<le> b) \<or> (b = sint i \<and> sint j \<le> a)
              then cell (sint (cols M)) xs b a else cell (sint (cols M)) xs a b))"
proof (induction M i j h arbitrary: xs rule: transpose_swap_inner.induct)
  case (1 M i j h)
  let ?n = "sint (cols M)" and ?p = "data M"
  show ?case
  proof (cases "sint j < ?n")
    case False
    with "1.prems" have "sint j = ?n" by simp
    with "1.prems" show ?thesis
      by (subst transpose_swap_inner.simps) (auto intro!: exI[of _ xs])
  next
    case True
    note next_j = sint_increment[OF True]
    note len = \<open>int (length xs) = ?n * ?n\<close> and fits = \<open>?n * ?n \<le> INT_MAX\<close>
    have i: "0 \<le> sint i" "sint i < ?n" and j: "0 \<le> sint j" "sint j < ?n"
      using "1.prems" True by simp_all
    let ?temp = "cell ?n xs (sint i) (sint j)" and ?v = "cell ?n xs (sint j) (sint i)"
    let ?xs1 = "xs[nat (sint i * ?n + sint j) := ?v]"
    let ?xs2 = "?xs1[nat (sint j * ?n + sint i) := ?temp]"
    let ?h1 = "h(?p \<mapsto> ?xs1)"
    let ?h2 = "?h1(?p \<mapsto> ?xs2)"
    have l1: "load h ?p (sint (i * cols M) + sint j) = Inr ?temp"
      using "1.prems"(1) len fits i j by (rule load_cell32)
    have l2: "load h ?p (sint (j * cols M) + sint i) = Inr ?v"
      using "1.prems"(1) len fits j i by (rule load_cell32)
    have s1: "store h ?p (sint (i * cols M) + sint j) ?v = Inr ?h1"
      using "1.prems"(1) len fits i j by (rule store_cell32)
    have len1: "int (length ?xs1) = ?n * ?n" using len by simp
    have s2: "store ?h1 ?p (sint (j * cols M) + sint i) ?temp = Inr ?h2"
      using _ len1 fits j i by (rule store_cell32) simp
    have len2: "int (length ?xs2) = ?n * ?n" using len by simp
    have cells2: "cell ?n ?xs2 a b =
        (if a = sint j \<and> b = sint i then ?temp else if a = sint i \<and> b = sint j then ?v
         else cell ?n xs a b)"
      if "0 \<le> a" "a < ?n" "0 \<le> b" "b < ?n" for a b
      using that i j by (simp add: cell_update[OF len1] cell_update[OF len])
    have "\<exists>ys. transpose_swap_inner M i (j + 1) ?h2 = Inr (?h2(?p \<mapsto> ys)) \<and>
            length ys = length ?xs2 \<and>
            (\<forall>a b. 0 \<le> a \<and> a < ?n \<and> 0 \<le> b \<and> b < ?n \<longrightarrow>
               cell ?n ys a b =
                 (if (a = sint i \<and> sint (j + 1) \<le> b) \<or> (b = sint i \<and> sint (j + 1) \<le> a)
                  then cell ?n ?xs2 b a else cell ?n ?xs2 a b))"
      using "1.prems" True len2 next_j by (intro "1.IH"[OF True l1 l2 s1 s2]) simp_all
    then obtain ys where run: "transpose_swap_inner M i (j + 1) ?h2 = Inr (h(?p \<mapsto> ys))"
      and lenys: "length ys = length xs"
      and cells: "\<And>a b. 0 \<le> a \<Longrightarrow> a < ?n \<Longrightarrow> 0 \<le> b \<Longrightarrow> b < ?n \<Longrightarrow>
               cell ?n ys a b =
                 (if (a = sint i \<and> sint j + 1 \<le> b) \<or> (b = sint i \<and> sint j + 1 \<le> a)
                  then cell ?n ?xs2 b a else cell ?n ?xs2 a b)"
      using next_j by auto
    have "\<forall>a b. 0 \<le> a \<and> a < ?n \<and> 0 \<le> b \<and> b < ?n \<longrightarrow>
           cell ?n ys a b =
             (if (a = sint i \<and> sint j \<le> b) \<or> (b = sint i \<and> sint j \<le> a) then cell ?n xs b a
              else cell ?n xs a b)"
    proof (intro allI impI, elim conjE)
      fix a b assume r: "0 \<le> a" "a < ?n" "0 \<le> b" "b < ?n"
      show "cell ?n ys a b =
             (if (a = sint i \<and> sint j \<le> b) \<or> (b = sint i \<and> sint j \<le> a) then cell ?n xs b a
              else cell ?n xs a b)"
        using \<open>sint i < sint j\<close> r by (auto simp: cells[OF r] cells2)
    qed
    with run lenys True l1 l2 s1 s2 show ?thesis
      by (subst transpose_swap_inner.simps) (auto intro!: exI[of _ ys])
  qed
qed

lemma transpose_swap_outer_spec:
  "h (data M) = Some xs \<Longrightarrow> int (length xs) = sint (cols M) * sint (cols M) \<Longrightarrow>
   sint (cols M) * sint (cols M) \<le> INT_MAX \<Longrightarrow> rows M = cols M \<Longrightarrow>
   0 \<le> sint i \<Longrightarrow> sint i \<le> sint (cols M) \<Longrightarrow>
   \<exists>ys. transpose_swap_outer M i h = Inr (h(data M \<mapsto> ys)) \<and> length ys = length xs \<and>
        (\<forall>a b. 0 \<le> a \<and> a < sint (cols M) \<and> 0 \<le> b \<and> b < sint (cols M) \<longrightarrow>
           cell (sint (cols M)) ys a b =
             (if (sint i \<le> a \<and> a < b) \<or> (sint i \<le> b \<and> b < a) then cell (sint (cols M)) xs b a
              else cell (sint (cols M)) xs a b))"
proof (induction M i h arbitrary: xs rule: transpose_swap_outer.induct)
  case (1 M i h)
  let ?n = "sint (cols M)" and ?p = "data M"
  show ?case
  proof (cases "sint i < sint (rows M)")
    case False
    with "1.prems" have "sint i = ?n" by simp
    with "1.prems" show ?thesis
      by (subst transpose_swap_outer.simps) (auto intro!: exI[of _ xs])
  next
    case True
    note next_i = sint_increment[OF True]
    have "\<exists>ys. transpose_swap_inner M i (i + 1) h = Inr (h(?p \<mapsto> ys)) \<and> length ys = length xs \<and>
            (\<forall>a b. 0 \<le> a \<and> a < ?n \<and> 0 \<le> b \<and> b < ?n \<longrightarrow>
               cell ?n ys a b =
                 (if (a = sint i \<and> sint (i + 1) \<le> b) \<or> (b = sint i \<and> sint (i + 1) \<le> a)
                  then cell ?n xs b a else cell ?n xs a b))"
      using "1.prems" True next_i by (intro transpose_swap_inner_spec) simp_all
    then obtain xs1 where row: "transpose_swap_inner M i (i + 1) h = Inr (h(?p \<mapsto> xs1))"
      and len1: "length xs1 = length xs"
      and cells1: "\<And>a b. 0 \<le> a \<Longrightarrow> a < ?n \<Longrightarrow> 0 \<le> b \<Longrightarrow> b < ?n \<Longrightarrow>
               cell ?n xs1 a b =
                 (if (a = sint i \<and> sint i + 1 \<le> b) \<or> (b = sint i \<and> sint i + 1 \<le> a)
                  then cell ?n xs b a else cell ?n xs a b)"
      using next_i by auto
    let ?h1 = "h(?p \<mapsto> xs1)"
    have "\<exists>ys. transpose_swap_outer M (i + 1) ?h1 = Inr (?h1(?p \<mapsto> ys)) \<and>
            length ys = length xs1 \<and>
            (\<forall>a b. 0 \<le> a \<and> a < ?n \<and> 0 \<le> b \<and> b < ?n \<longrightarrow>
               cell ?n ys a b =
                 (if (sint (i + 1) \<le> a \<and> a < b) \<or> (sint (i + 1) \<le> b \<and> b < a)
                  then cell ?n xs1 b a else cell ?n xs1 a b))"
      using "1.prems" True len1 next_i by (intro "1.IH"[OF True row]) simp_all
    then obtain ys where run: "transpose_swap_outer M (i + 1) ?h1 = Inr (h(?p \<mapsto> ys))"
      and lenys: "length ys = length xs"
      and cells: "\<And>a b. 0 \<le> a \<Longrightarrow> a < ?n \<Longrightarrow> 0 \<le> b \<Longrightarrow> b < ?n \<Longrightarrow>
               cell ?n ys a b =
                 (if (sint i + 1 \<le> a \<and> a < b) \<or> (sint i + 1 \<le> b \<and> b < a)
                  then cell ?n xs1 b a else cell ?n xs1 a b)"
      using len1 next_i by auto
    have "\<forall>a b. 0 \<le> a \<and> a < ?n \<and> 0 \<le> b \<and> b < ?n \<longrightarrow>
           cell ?n ys a b =
             (if (sint i \<le> a \<and> a < b) \<or> (sint i \<le> b \<and> b < a) then cell ?n xs b a
              else cell ?n xs a b)"
    proof (intro allI impI, elim conjE)
      fix a b assume r: "0 \<le> a" "a < ?n" "0 \<le> b" "b < ?n"
      show "cell ?n ys a b =
             (if (sint i \<le> a \<and> a < b) \<or> (sint i \<le> b \<and> b < a) then cell ?n xs b a
              else cell ?n xs a b)"
        using r by (auto simp: cells[OF r] cells1)
    qed
    with run lenys True row show ?thesis
      by (subst transpose_swap_outer.simps) (auto intro!: exI[of _ ys])
  qed
qed

text \<open>A buffer is determined by its cells.\<close>

lemma cells_eqI:
  assumes lx: "int (length xs) = m * w" and ly: "length ys = length xs" and w: "0 < w"
    and eq: "\<And>a b. 0 \<le> a \<Longrightarrow> a < m \<Longrightarrow> 0 \<le> b \<Longrightarrow> b < w \<Longrightarrow> cell w ys a b = cell w xs a b"
  shows "ys = xs"
proof (rule nth_equalityI)
  show "length ys = length xs" by (rule ly)
next
  fix k assume "k < length ys"
  with ly lx have k: "int k < m * w" by simp
  let ?a = "int k div w" and ?b = "int k mod w"
  have b: "0 \<le> ?b" "?b < w" using w by simp_all
  have a0: "0 \<le> ?a" using w by (simp add: pos_imp_zdiv_nonneg_iff)
  have split: "?a * w + ?b = int k" by simp
  have am: "?a < m"
  proof (rule ccontr)
    assume "\<not> ?a < m"
    then have "m \<le> ?a" by simp
    then have "m * w \<le> ?a * w" using w by (intro mult_right_mono) simp_all
    also have "\<dots> \<le> int k" using b(1) split by linarith
    finally show False using k by simp
  qed
  from split have "nat (?a * w + ?b) = k" by simp
  with eq[OF a0 am b] show "ys ! k = xs ! k" by (simp add: cell_def)
qed

text \<open>When the product is not negative, \<^verbatim>\<open>malloc\<close> is asked for exactly that many doubles.\<close>

lemma malloc_cells_exact:
  assumes "0 \<le> sint n"
  shows "malloc_cells n = nat (sint n)"
proof -
  have small: "sint n < 2 ^ 31" using sint_lt[of n] by simp
  have "sint n mod 2 ^ 64 = sint n" using assms small by simp
  moreover have "(sint n * 8) mod 2 ^ 64 = sint n * 8" using assms small by simp
  ultimately show ?thesis by (simp add: malloc_cells_def)
qed

lemma transposeMatrix_square_run:
  assumes A: "matrix_at s matrix xs" and sq: "isSquare (mats s matrix)"
    and fits: "in_int_range s matrix"
  shows "\<exists>ys. transposeMatrix matrix result malloc s =
              Inr (True, s\<lparr>mats := (mats s)(result := mats s matrix),
                           bufs := (bufs s)(data (mats s matrix) \<mapsto> ys)\<rparr>) \<and>
           length ys = length xs \<and>
           (\<forall>i j. 0 \<le> i \<and> i < sint (rows (mats s matrix)) \<and>
                  0 \<le> j \<and> j < sint (cols (mats s matrix)) \<longrightarrow>
              cell (sint (cols (mats s matrix))) ys i j = cell (sint (cols (mats s matrix))) xs j i)"
proof -
  let ?M = "mats s matrix"
  let ?n = "sint (cols ?M)"
  have rc: "rows ?M = cols ?M" using sq by (simp add: isSquare_def)
  have buf: "bufs s (data ?M) = Some xs" and len: "int (length xs) = ?n * ?n" and n: "0 < ?n"
    and small: "?n * ?n \<le> INT_MAX"
    using A fits rc by (simp_all add: matrix_at_def in_int_range_def)
  have "\<exists>ys. transpose_swap_outer ?M 0 (bufs s) = Inr ((bufs s)(data ?M \<mapsto> ys)) \<and>
          length ys = length xs \<and>
          (\<forall>a b. 0 \<le> a \<and> a < ?n \<and> 0 \<le> b \<and> b < ?n \<longrightarrow>
             cell ?n ys a b =
               (if (sint (0 :: cint) \<le> a \<and> a < b) \<or> (sint (0 :: cint) \<le> b \<and> b < a)
                then cell ?n xs b a else cell ?n xs a b))"
    using buf len small rc n by (intro transpose_swap_outer_spec) simp_all
  then obtain ys where run: "transpose_swap_outer ?M 0 (bufs s) = Inr ((bufs s)(data ?M \<mapsto> ys))"
    and lenys: "length ys = length xs"
    and cells: "\<And>a b. 0 \<le> a \<Longrightarrow> a < ?n \<Longrightarrow> 0 \<le> b \<Longrightarrow> b < ?n \<Longrightarrow>
             cell ?n ys a b =
               (if (0 \<le> a \<and> a < b) \<or> (0 \<le> b \<and> b < a) then cell ?n xs b a
                else cell ?n xs a b)"
    by auto
  have swapped: "\<forall>i j. 0 \<le> i \<and> i < sint (rows ?M) \<and> 0 \<le> j \<and> j < ?n \<longrightarrow>
                   cell ?n ys i j = cell ?n xs j i"
  proof (intro allI impI, elim conjE)
    fix i j assume r: "0 \<le> i" "i < sint (rows ?M)" "0 \<le> j" "j < ?n"
    then have r': "0 \<le> i" "i < ?n" "0 \<le> j" "j < ?n" using rc by simp_all
    show "cell ?n ys i j = cell ?n xs j i"
      using cells[OF r'] r' by auto
  qed
  have same: "(mats s result)\<lparr>rows := rows ?M, cols := cols ?M, data := data ?M\<rparr> = ?M"
    by simp
  have "transposeMatrix matrix result malloc s =
          Inr (True, s\<lparr>mats := (mats s)(result := ?M), bufs := (bufs s)(data ?M \<mapsto> ys)\<rparr>)"
    using sq run
    by (simp add: transposeMatrix_def Let_def set_rows_def set_cols_def set_data_def same)
  with lenys swapped show ?thesis by blast
qed

lemma transpose_copy_inner_spec:
  "h (data M) = Some xs \<Longrightarrow> int (length xs) = sint (rows M) * sint (cols M) \<Longrightarrow>
   sint (rows M) * sint (cols M) \<le> INT_MAX \<Longrightarrow>
   h (data R) = Some rs \<Longrightarrow> int (length rs) = sint (cols M) * sint (rows M) \<Longrightarrow>
   cols R = rows M \<Longrightarrow> data R \<noteq> data M \<Longrightarrow>
   0 \<le> sint i \<Longrightarrow> sint i < sint (rows M) \<Longrightarrow> 0 \<le> sint j \<Longrightarrow>
   \<exists>ys. transpose_copy_inner M R i j h = Inr (h(data R \<mapsto> ys)) \<and> length ys = length rs \<and>
        (\<forall>a b. 0 \<le> a \<and> a < sint (cols M) \<and> 0 \<le> b \<and> b < sint (rows M) \<longrightarrow>
           cell (sint (rows M)) ys a b =
             (if b = sint i \<and> sint j \<le> a then cell (sint (cols M)) xs b a
              else cell (sint (rows M)) rs a b))"
proof (induction M R i j h arbitrary: rs rule: transpose_copy_inner.induct)
  case (1 M R i j h)
  let ?c = "sint (cols M)" and ?r = "sint (rows M)"
  show ?case
  proof (cases "sint j < ?c")
    case False
    with "1.prems" show ?thesis
      by (subst transpose_copy_inner.simps) (auto intro!: exI[of _ rs])
  next
    case True
    note next_j = sint_increment[OF True]
    note lenx = \<open>int (length xs) = ?r * ?c\<close> and lenr = \<open>int (length rs) = ?c * ?r\<close>
      and fits = \<open>?r * ?c \<le> INT_MAX\<close>
    have fits': "?c * ?r \<le> INT_MAX" using fits by (simp add: mult.commute)
    have i: "0 \<le> sint i" "sint i < ?r" and j: "0 \<le> sint j" "sint j < ?c"
      using "1.prems" True by simp_all
    let ?v = "cell ?c xs (sint i) (sint j)"
    let ?rs = "rs[nat (sint j * ?r + sint i) := ?v]"
    let ?h = "h(data R \<mapsto> ?rs)"
    have ld: "load h (data M) (sint (i * cols M) + sint j) = Inr ?v"
      using "1.prems"(1) lenx fits i j by (rule load_cell32)
    have "store h (data R) (sint (j * rows M) + sint i) ?v = Inr ?h"
      using "1.prems"(4) lenr fits' j i by (rule store_cell32)
    then have st: "store h (data R) (sint (j * cols R) + sint i) ?v = Inr ?h"
      using \<open>cols R = rows M\<close> by simp
    have lenr': "int (length ?rs) = ?c * ?r" using lenr by simp
    have "\<exists>ys. transpose_copy_inner M R i (j + 1) ?h = Inr (?h(data R \<mapsto> ys)) \<and>
            length ys = length ?rs \<and>
            (\<forall>a b. 0 \<le> a \<and> a < ?c \<and> 0 \<le> b \<and> b < ?r \<longrightarrow>
               cell ?r ys a b =
                 (if b = sint i \<and> sint (j + 1) \<le> a then cell ?c xs b a else cell ?r ?rs a b))"
      using "1.prems" True lenr' next_j by (intro "1.IH"[OF True ld st]) simp_all
    then obtain ys where run: "transpose_copy_inner M R i (j + 1) ?h = Inr (h(data R \<mapsto> ys))"
      and lenys: "length ys = length rs"
      and cells: "\<And>a b. 0 \<le> a \<Longrightarrow> a < ?c \<Longrightarrow> 0 \<le> b \<Longrightarrow> b < ?r \<Longrightarrow>
               cell ?r ys a b =
                 (if b = sint i \<and> sint j + 1 \<le> a then cell ?c xs b a else cell ?r ?rs a b)"
      using next_j by auto
    have "\<forall>a b. 0 \<le> a \<and> a < ?c \<and> 0 \<le> b \<and> b < ?r \<longrightarrow>
           cell ?r ys a b = (if b = sint i \<and> sint j \<le> a then cell ?c xs b a else cell ?r rs a b)"
    proof (intro allI impI, elim conjE)
      fix a b assume r: "0 \<le> a" "a < ?c" "0 \<le> b" "b < ?r"
      show "cell ?r ys a b = (if b = sint i \<and> sint j \<le> a then cell ?c xs b a else cell ?r rs a b)"
        using r i j by (auto simp: cells[OF r] cell_update[OF lenr])
    qed
    with run lenys True ld st show ?thesis
      by (subst transpose_copy_inner.simps) (auto intro!: exI[of _ ys])
  qed
qed

lemma transpose_copy_outer_spec:
  "h (data M) = Some xs \<Longrightarrow> int (length xs) = sint (rows M) * sint (cols M) \<Longrightarrow>
   sint (rows M) * sint (cols M) \<le> INT_MAX \<Longrightarrow>
   h (data R) = Some rs \<Longrightarrow> int (length rs) = sint (cols M) * sint (rows M) \<Longrightarrow>
   cols R = rows M \<Longrightarrow> data R \<noteq> data M \<Longrightarrow> 0 \<le> sint i \<Longrightarrow>
   \<exists>ys. transpose_copy_outer M R i h = Inr (h(data R \<mapsto> ys)) \<and> length ys = length rs \<and>
        (\<forall>a b. 0 \<le> a \<and> a < sint (cols M) \<and> 0 \<le> b \<and> b < sint (rows M) \<longrightarrow>
           cell (sint (rows M)) ys a b =
             (if sint i \<le> b then cell (sint (cols M)) xs b a else cell (sint (rows M)) rs a b))"
proof (induction M R i h arbitrary: rs rule: transpose_copy_outer.induct)
  case (1 M R i h)
  let ?c = "sint (cols M)" and ?r = "sint (rows M)"
  show ?case
  proof (cases "sint i < ?r")
    case False
    with "1.prems" show ?thesis
      by (subst transpose_copy_outer.simps) (auto intro!: exI[of _ rs])
  next
    case True
    note next_i = sint_increment[OF True]
    have "\<exists>ys. transpose_copy_inner M R i 0 h = Inr (h(data R \<mapsto> ys)) \<and> length ys = length rs \<and>
            (\<forall>a b. 0 \<le> a \<and> a < ?c \<and> 0 \<le> b \<and> b < ?r \<longrightarrow>
               cell ?r ys a b =
                 (if b = sint i \<and> sint (0 :: cint) \<le> a then cell ?c xs b a else cell ?r rs a b))"
      using "1.prems" True by (intro transpose_copy_inner_spec) simp_all
    then obtain rs1 where row: "transpose_copy_inner M R i 0 h = Inr (h(data R \<mapsto> rs1))"
      and len1: "length rs1 = length rs"
      and cells1: "\<And>a b. 0 \<le> a \<Longrightarrow> a < ?c \<Longrightarrow> 0 \<le> b \<Longrightarrow> b < ?r \<Longrightarrow>
               cell ?r rs1 a b = (if b = sint i then cell ?c xs b a else cell ?r rs a b)"
      by auto
    let ?h1 = "h(data R \<mapsto> rs1)"
    have "\<exists>ys. transpose_copy_outer M R (i + 1) ?h1 = Inr (?h1(data R \<mapsto> ys)) \<and>
            length ys = length rs1 \<and>
            (\<forall>a b. 0 \<le> a \<and> a < ?c \<and> 0 \<le> b \<and> b < ?r \<longrightarrow>
               cell ?r ys a b =
                 (if sint (i + 1) \<le> b then cell ?c xs b a else cell ?r rs1 a b))"
      using "1.prems" True len1 next_i by (intro "1.IH"[OF True row]) simp_all
    then obtain ys where run: "transpose_copy_outer M R (i + 1) ?h1 = Inr (h(data R \<mapsto> ys))"
      and lenys: "length ys = length rs"
      and cells: "\<And>a b. 0 \<le> a \<Longrightarrow> a < ?c \<Longrightarrow> 0 \<le> b \<Longrightarrow> b < ?r \<Longrightarrow>
               cell ?r ys a b = (if sint i + 1 \<le> b then cell ?c xs b a else cell ?r rs1 a b)"
      using len1 next_i by auto
    have "\<forall>a b. 0 \<le> a \<and> a < ?c \<and> 0 \<le> b \<and> b < ?r \<longrightarrow>
           cell ?r ys a b = (if sint i \<le> b then cell ?c xs b a else cell ?r rs a b)"
    proof (intro allI impI, elim conjE)
      fix a b assume r: "0 \<le> a" "a < ?c" "0 \<le> b" "b < ?r"
      show "cell ?r ys a b = (if sint i \<le> b then cell ?c xs b a else cell ?r rs a b)"
        using r by (auto simp: cells[OF r] cells1)
    qed
    with run lenys True row show ?thesis
      by (subst transpose_copy_outer.simps) (auto intro!: exI[of _ ys])
  qed
qed

lemma transposeMatrix_rectangular_run:
  assumes A: "matrix_at s matrix xs" and nsq: "\<not> isSquare (mats s matrix)"
    and fits: "in_int_range s matrix"
    and apart: "result \<noteq> matrix" and fresh: "bufs s p = None"
  shows "\<exists>ys. transposeMatrix matrix result (Some (p, junk)) s =
              Inr (True, s\<lparr>mats := (mats s)(result :=
                                \<lparr>rows = cols (mats s matrix), cols = rows (mats s matrix), data = p\<rparr>),
                           bufs := (bufs s)(p \<mapsto> ys)\<rparr>) \<and>
           int (length ys) = sint (cols (mats s matrix)) * sint (rows (mats s matrix)) \<and>
           (\<forall>i j. 0 \<le> i \<and> i < sint (rows (mats s matrix)) \<and>
                  0 \<le> j \<and> j < sint (cols (mats s matrix)) \<longrightarrow>
              cell (sint (rows (mats s matrix))) ys j i = cell (sint (cols (mats s matrix))) xs i j)"
proof -
  let ?M = "mats s matrix"
  let ?c = "sint (cols ?M)" and ?r = "sint (rows ?M)"
  let ?R = "\<lparr>rows = cols ?M, cols = rows ?M, data = p\<rparr>"
  let ?n = "malloc_cells (cols ?M * rows ?M)"
  let ?rs = "map junk [0..<?n]"
  let ?h = "(bufs s)(p \<mapsto> ?rs)"
  have buf: "bufs s (data ?M) = Some xs" and len: "int (length xs) = ?r * ?c"
    and pos: "0 < ?r" "0 < ?c" and small: "?r * ?c \<le> INT_MAX"
    using A fits by (simp_all add: matrix_at_def in_int_range_def)
  have pM: "p \<noteq> data ?M" using buf fresh by auto
  have "0 \<le> ?c * ?r" using pos by simp
  moreover have "?c * ?r \<le> INT_MAX" using small by (simp add: mult.commute)
  ultimately have prod: "sint (cols ?M * rows ?M) = ?c * ?r" by (rule sint_mult_exact)
  have "?n = nat (?c * ?r)"
    using pos prod by (simp add: malloc_cells_exact)
  then have lenr: "int (length ?rs) = ?c * ?r" using pos by simp
  have "\<exists>ys. transpose_copy_outer ?M ?R 0 ?h = Inr (?h(data ?R \<mapsto> ys)) \<and>
          length ys = length ?rs \<and>
          (\<forall>a b. 0 \<le> a \<and> a < ?c \<and> 0 \<le> b \<and> b < ?r \<longrightarrow>
             cell ?r ys a b =
               (if sint (0 :: cint) \<le> b then cell ?c xs b a else cell ?r ?rs a b))"
    using buf len small pM lenr by (intro transpose_copy_outer_spec) simp_all
  then obtain ys where run: "transpose_copy_outer ?M ?R 0 ?h = Inr ((bufs s)(p \<mapsto> ys))"
    and lenys: "length ys = length ?rs"
    and cells: "\<And>a b. 0 \<le> a \<Longrightarrow> a < ?c \<Longrightarrow> 0 \<le> b \<Longrightarrow> b < ?r \<Longrightarrow>
             cell ?r ys a b = cell ?c xs b a"
    by auto
  have same: "(mats s result)\<lparr>rows := cols ?M, cols := rows ?M, data := p\<rparr> = ?R"
    by simp
  have "transposeMatrix matrix result (Some (p, junk)) s =
          Inr (True, s\<lparr>mats := (mats s)(result := ?R), bufs := (bufs s)(p \<mapsto> ys)\<rparr>)"
    using nsq run apart
    by (simp add: transposeMatrix_def Let_def set_rows_def set_cols_def set_data_def same)
  moreover have "int (length ys) = ?c * ?r" using lenys lenr by simp
  ultimately show ?thesis using cells by blast
qed

section \<open>The loops of the matrix product\<close>

declare multiplyMatrices_k.simps [simp del]
declare multiplyMatrices_c.simps [simp del]
declare multiplyMatrices_r.simps [simp del]

lemma sum_int_head:
  fixes f :: "int \<Rightarrow> real"
  assumes "k < n"
  shows "sum f {k..<n} = f k + sum f {k + 1..<n}"
proof -
  have "{k..<n} = insert k {k + 1..<n}" using assms by auto
  then show ?thesis by simp
qed

lemma multiplyMatrices_k_spec:
  "h (data A) = Some xa \<Longrightarrow> int (length xa) = sint (rows A) * sint (cols A) \<Longrightarrow>
   sint (rows A) * sint (cols A) \<le> INT_MAX \<Longrightarrow>
   h (data B) = Some xb \<Longrightarrow> int (length xb) = sint (cols A) * sint (cols B) \<Longrightarrow>
   sint (cols A) * sint (cols B) \<le> INT_MAX \<Longrightarrow>
   h (data R) = Some xr \<Longrightarrow> int (length xr) = sint (rows A) * sint (cols B) \<Longrightarrow>
   sint (rows A) * sint (cols B) \<le> INT_MAX \<Longrightarrow> cols R = cols B \<Longrightarrow>
   data R \<noteq> data A \<Longrightarrow> data R \<noteq> data B \<Longrightarrow>
   0 \<le> sint r \<Longrightarrow> sint r < sint (rows A) \<Longrightarrow> 0 \<le> sint c \<Longrightarrow> sint c < sint (cols B) \<Longrightarrow>
   0 \<le> sint k \<Longrightarrow>
   multiplyMatrices_k A B R r c k h =
     Inr (h(data R \<mapsto> xr[nat (sint r * sint (cols B) + sint c) :=
            cell (sint (cols B)) xr (sint r) (sint c) + dot A B xa xb (sint r) (sint c) (sint k)]))"
proof (induction A B R r c k h arbitrary: xr rule: multiplyMatrices_k.induct)
  case (1 A B R r c k h)
  let ?w = "sint (cols B)"
  let ?i = "nat (sint r * ?w + sint c)"
  show ?case
  proof (cases "sint k < sint (cols A)")
    case False
    then have "dot A B xa xb (sint r) (sint c) (sint k) = 0" by (simp add: dot_def)
    with False "1.prems" show ?thesis
      by (subst multiplyMatrices_k.simps) (simp add: cell_def map_upd_triv)
  next
    case True
    note next_k = sint_increment[OF True]
    note rc = \<open>0 \<le> sint r\<close> \<open>sint r < sint (rows A)\<close> \<open>0 \<le> sint c\<close> \<open>sint c < ?w\<close>
    note lenr = \<open>int (length xr) = sint (rows A) * ?w\<close>
    have k: "0 \<le> sint k" "sint k < sint (cols A)" using "1.prems" True by simp_all
    let ?x = "cell (sint (cols A)) xa (sint r) (sint k)" and ?y = "cell ?w xb (sint k) (sint c)"
    let ?acc = "cell ?w xr (sint r) (sint c)"
    let ?xr = "xr[?i := ?acc + ?x * ?y]"
    let ?h = "h(data R \<mapsto> ?xr)"
    have i: "?i < length xr"
      using idx_bounds[OF rc] lenr by linarith
    have lx: "load h (data A) (sint (r * cols A) + sint k) = Inr ?x"
      using "1.prems"(1,2,3) rc(1,2) k by (rule load_cell32)
    have ly: "load h (data B) (sint (k * cols B) + sint c) = Inr ?y"
      using "1.prems"(4,5,6) k rc(3,4) by (rule load_cell32)
    have "load h (data R) (sint (r * cols B) + sint c) = Inr ?acc"
      using "1.prems"(7,8,9) rc by (rule load_cell32)
    then have la: "load h (data R) (sint (r * cols R) + sint c) = Inr ?acc"
      using \<open>cols R = cols B\<close> by simp
    have "store h (data R) (sint (r * cols B) + sint c) (?acc + ?x * ?y) = Inr ?h"
      using "1.prems"(7,8,9) rc by (rule store_cell32)
    then have st: "store h (data R) (sint (r * cols R) + sint c) (?acc + ?x * ?y) = Inr ?h"
      using \<open>cols R = cols B\<close> by simp
    have "multiplyMatrices_k A B R r c (k + 1) ?h =
            Inr (?h(data R \<mapsto> ?xr[?i := cell ?w ?xr (sint r) (sint c) +
                   dot A B xa xb (sint r) (sint c) (sint (k + 1))]))"
      using "1.prems" True next_k by (intro "1.IH"[OF True lx ly la st]) simp_all
    moreover have "cell ?w ?xr (sint r) (sint c) = ?acc + ?x * ?y"
      using i by (simp add: cell_def)
    moreover have "dot A B xa xb (sint r) (sint c) (sint k) =
                   ?x * ?y + dot A B xa xb (sint r) (sint c) (sint k + 1)"
      using True by (simp add: dot_def sum_int_head)
    ultimately have "multiplyMatrices_k A B R r c (k + 1) ?h =
            Inr (h(data R \<mapsto> xr[?i := ?acc + dot A B xa xb (sint r) (sint c) (sint k)]))"
      using next_k by (simp add: add.assoc)
    with True lx ly la st show ?thesis
      by (subst multiplyMatrices_k.simps) simp
  qed
qed

lemma multiplyMatrices_c_spec:
  "h (data A) = Some xa \<Longrightarrow> int (length xa) = sint (rows A) * sint (cols A) \<Longrightarrow>
   sint (rows A) * sint (cols A) \<le> INT_MAX \<Longrightarrow>
   h (data B) = Some xb \<Longrightarrow> int (length xb) = sint (cols A) * sint (cols B) \<Longrightarrow>
   sint (cols A) * sint (cols B) \<le> INT_MAX \<Longrightarrow>
   h (data R) = Some xr \<Longrightarrow> int (length xr) = sint (rows A) * sint (cols B) \<Longrightarrow>
   sint (rows A) * sint (cols B) \<le> INT_MAX \<Longrightarrow> cols R = cols B \<Longrightarrow>
   data R \<noteq> data A \<Longrightarrow> data R \<noteq> data B \<Longrightarrow>
   0 \<le> sint r \<Longrightarrow> sint r < sint (rows A) \<Longrightarrow> 0 \<le> sint c \<Longrightarrow>
   \<exists>ys. multiplyMatrices_c A B R r c h = Inr (h(data R \<mapsto> ys)) \<and> length ys = length xr \<and>
        (\<forall>r' c'. 0 \<le> r' \<and> r' < sint (rows A) \<and> 0 \<le> c' \<and> c' < sint (cols B) \<longrightarrow>
           cell (sint (cols B)) ys r' c' =
             (if r' = sint r \<and> sint c \<le> c' then dot A B xa xb r' c' 0
              else cell (sint (cols B)) xr r' c'))"
proof (induction A B R r c h arbitrary: xr rule: multiplyMatrices_c.induct)
  case (1 A B R r c h)
  let ?w = "sint (cols B)"
  let ?i = "nat (sint r * ?w + sint c)"
  show ?case
  proof (cases "sint c < ?w")
    case False
    with "1.prems" show ?thesis
      by (subst multiplyMatrices_c.simps) (auto intro!: exI[of _ xr])
  next
    case True
    note next_c = sint_increment[OF True]
    note len = \<open>int (length xr) = sint (rows A) * ?w\<close>
      and fits = \<open>sint (rows A) * ?w \<le> INT_MAX\<close>
    have rc: "0 \<le> sint r" "sint r < sint (rows A)" "0 \<le> sint c" "sint c < ?w"
      using "1.prems" True by simp_all
    let ?xr0 = "xr[?i := 0]"
    let ?h1 = "h(data R \<mapsto> ?xr0)"
    let ?xr1 = "xr[?i := dot A B xa xb (sint r) (sint c) 0]"
    let ?h2 = "h(data R \<mapsto> ?xr1)"
    have i: "?i < length xr"
      using idx_bounds[OF rc] len by linarith
    have "store h (data R) (sint (r * cols B) + sint c) 0 = Inr ?h1"
      using "1.prems"(7) len fits rc by (rule store_cell32)
    then have st: "store h (data R) (sint (r * cols R) + sint c) 0 = Inr ?h1"
      using \<open>cols R = cols B\<close> by simp
    have "multiplyMatrices_k A B R r c 0 ?h1 =
            Inr (?h1(data R \<mapsto> ?xr0[?i := cell ?w ?xr0 (sint r) (sint c) +
                   dot A B xa xb (sint r) (sint c) (sint (0 :: cint))]))"
      using "1.prems" True len by (intro multiplyMatrices_k_spec) simp_all
    moreover have "cell ?w ?xr0 (sint r) (sint c) = 0" using i by (simp add: cell_def)
    ultimately have inner: "multiplyMatrices_k A B R r c 0 ?h1 = Inr ?h2" by simp
    have len1: "int (length ?xr1) = sint (rows A) * ?w" using len by simp
    have cells1: "cell ?w ?xr1 r' c' =
        (if r' = sint r \<and> c' = sint c then dot A B xa xb (sint r) (sint c) 0 else cell ?w xr r' c')"
      if "0 \<le> r'" "r' < sint (rows A)" "0 \<le> c'" "c' < ?w" for r' c'
      using that rc by (simp add: cell_update[OF len])
    have "\<exists>ys. multiplyMatrices_c A B R r (c + 1) ?h2 = Inr (?h2(data R \<mapsto> ys)) \<and>
            length ys = length ?xr1 \<and>
            (\<forall>r' c'. 0 \<le> r' \<and> r' < sint (rows A) \<and> 0 \<le> c' \<and> c' < ?w \<longrightarrow>
               cell ?w ys r' c' =
                 (if r' = sint r \<and> sint (c + 1) \<le> c' then dot A B xa xb r' c' 0
                  else cell ?w ?xr1 r' c'))"
      using "1.prems" True len1 next_c by (intro "1.IH"[OF True st inner]) simp_all
    then obtain ys where run: "multiplyMatrices_c A B R r (c + 1) ?h2 = Inr (h(data R \<mapsto> ys))"
      and lenys: "length ys = length xr"
      and cells: "\<And>r' c'. 0 \<le> r' \<Longrightarrow> r' < sint (rows A) \<Longrightarrow> 0 \<le> c' \<Longrightarrow> c' < ?w \<Longrightarrow>
               cell ?w ys r' c' =
                 (if r' = sint r \<and> sint c + 1 \<le> c' then dot A B xa xb r' c' 0
                  else cell ?w ?xr1 r' c')"
      using next_c by auto
    have "\<forall>r' c'. 0 \<le> r' \<and> r' < sint (rows A) \<and> 0 \<le> c' \<and> c' < ?w \<longrightarrow>
           cell ?w ys r' c' =
             (if r' = sint r \<and> sint c \<le> c' then dot A B xa xb r' c' 0 else cell ?w xr r' c')"
    proof (intro allI impI, elim conjE)
      fix r' c' assume q: "0 \<le> r'" "r' < sint (rows A)" "0 \<le> c'" "c' < ?w"
      show "cell ?w ys r' c' =
             (if r' = sint r \<and> sint c \<le> c' then dot A B xa xb r' c' 0 else cell ?w xr r' c')"
        using q by (auto simp: cells[OF q] cells1)
    qed
    with run lenys True st inner show ?thesis
      by (subst multiplyMatrices_c.simps) (auto intro!: exI[of _ ys])
  qed
qed

lemma multiplyMatrices_r_spec:
  "h (data A) = Some xa \<Longrightarrow> int (length xa) = sint (rows A) * sint (cols A) \<Longrightarrow>
   sint (rows A) * sint (cols A) \<le> INT_MAX \<Longrightarrow>
   h (data B) = Some xb \<Longrightarrow> int (length xb) = sint (cols A) * sint (cols B) \<Longrightarrow>
   sint (cols A) * sint (cols B) \<le> INT_MAX \<Longrightarrow>
   h (data R) = Some xr \<Longrightarrow> int (length xr) = sint (rows A) * sint (cols B) \<Longrightarrow>
   sint (rows A) * sint (cols B) \<le> INT_MAX \<Longrightarrow> cols R = cols B \<Longrightarrow>
   data R \<noteq> data A \<Longrightarrow> data R \<noteq> data B \<Longrightarrow> 0 \<le> sint r \<Longrightarrow>
   \<exists>ys. multiplyMatrices_r A B R r h = Inr (h(data R \<mapsto> ys)) \<and> length ys = length xr \<and>
        (\<forall>r' c'. 0 \<le> r' \<and> r' < sint (rows A) \<and> 0 \<le> c' \<and> c' < sint (cols B) \<longrightarrow>
           cell (sint (cols B)) ys r' c' =
             (if sint r \<le> r' then dot A B xa xb r' c' 0 else cell (sint (cols B)) xr r' c'))"
proof (induction A B R r h arbitrary: xr rule: multiplyMatrices_r.induct)
  case (1 A B R r h)
  let ?w = "sint (cols B)"
  show ?case
  proof (cases "sint r < sint (rows A)")
    case False
    with "1.prems" show ?thesis
      by (subst multiplyMatrices_r.simps) (auto intro!: exI[of _ xr])
  next
    case True
    note next_r = sint_increment[OF True]
    have "\<exists>ys. multiplyMatrices_c A B R r 0 h = Inr (h(data R \<mapsto> ys)) \<and> length ys = length xr \<and>
            (\<forall>r' c'. 0 \<le> r' \<and> r' < sint (rows A) \<and> 0 \<le> c' \<and> c' < ?w \<longrightarrow>
               cell ?w ys r' c' =
                 (if r' = sint r \<and> sint (0 :: cint) \<le> c' then dot A B xa xb r' c' 0
                  else cell ?w xr r' c'))"
      using "1.prems" True by (intro multiplyMatrices_c_spec) simp_all
    then obtain xr1 where row: "multiplyMatrices_c A B R r 0 h = Inr (h(data R \<mapsto> xr1))"
      and len1: "length xr1 = length xr"
      and cells1: "\<And>r' c'. 0 \<le> r' \<Longrightarrow> r' < sint (rows A) \<Longrightarrow> 0 \<le> c' \<Longrightarrow> c' < ?w \<Longrightarrow>
               cell ?w xr1 r' c' =
                 (if r' = sint r then dot A B xa xb r' c' 0 else cell ?w xr r' c')"
      by auto
    let ?h1 = "h(data R \<mapsto> xr1)"
    have "\<exists>ys. multiplyMatrices_r A B R (r + 1) ?h1 = Inr (?h1(data R \<mapsto> ys)) \<and>
            length ys = length xr1 \<and>
            (\<forall>r' c'. 0 \<le> r' \<and> r' < sint (rows A) \<and> 0 \<le> c' \<and> c' < ?w \<longrightarrow>
               cell ?w ys r' c' =
                 (if sint (r + 1) \<le> r' then dot A B xa xb r' c' 0 else cell ?w xr1 r' c'))"
      using "1.prems" True len1 next_r by (intro "1.IH"[OF True row]) simp_all
    then obtain ys where run: "multiplyMatrices_r A B R (r + 1) ?h1 = Inr (h(data R \<mapsto> ys))"
      and lenys: "length ys = length xr"
      and cells: "\<And>r' c'. 0 \<le> r' \<Longrightarrow> r' < sint (rows A) \<Longrightarrow> 0 \<le> c' \<Longrightarrow> c' < ?w \<Longrightarrow>
               cell ?w ys r' c' =
                 (if sint r + 1 \<le> r' then dot A B xa xb r' c' 0 else cell ?w xr1 r' c')"
      using len1 next_r by auto
    have "\<forall>r' c'. 0 \<le> r' \<and> r' < sint (rows A) \<and> 0 \<le> c' \<and> c' < ?w \<longrightarrow>
           cell ?w ys r' c' =
             (if sint r \<le> r' then dot A B xa xb r' c' 0 else cell ?w xr r' c')"
    proof (intro allI impI, elim conjE)
      fix r' c' assume q: "0 \<le> r'" "r' < sint (rows A)" "0 \<le> c'" "c' < ?w"
      show "cell ?w ys r' c' =
             (if sint r \<le> r' then dot A B xa xb r' c' 0 else cell ?w xr r' c')"
        using q by (auto simp: cells[OF q] cells1)
    qed
    with run lenys True row show ?thesis
      by (subst multiplyMatrices_r.simps) (auto intro!: exI[of _ ys])
  qed
qed

section \<open>Matrix product: the shape of the result\<close>

text \<open>
  Claim C1. For matrices \<open>a\<close>, \<open>b\<close> with \<open>a.cols = b.rows\<close> the product has \<open>a.rows\<close> rows
  and \<open>b.cols\<close> columns. The code stores \<open>a.cols\<close> in \<^verbatim>\<open>result->rows\<close>: on the 2 x 3 matrix 1
  and the 3 x 2 matrix 3 of the example state the call succeeds, fills the four cells of a
  2 x 2 product, and leaves the result struct with 3 rows where \<open>a\<close> has 2.
\<close>

theorem multiplyMatrices_result_rows_example:
  "returned (multiplyMatrices 1 3 5 example_state) = Some True \<and>
   matrix_after (multiplyMatrices 1 3 5 example_state) 5 = Some \<lparr>rows = 3, cols = 2, data = 5\<rparr> \<and>
   buffer_after (multiplyMatrices 1 3 5 example_state) 5 = Some [58, 64, 139, 154] \<and>
   rows (mats example_state 1) = 2"
  by (simp add: example_defs multiplyMatrices_def
      multiplyMatrices_r.simps multiplyMatrices_c.simps multiplyMatrices_k.simps)

section \<open>Scalar multiply\<close>

text \<open>
  Claim C2. Scalar multiply scales every one of the \<open>rows * cols\<close> elements. The loop of the
  code stops at \<open>rows + cols\<close>: scaling the 2 x 3 matrix 1 of the example state by 2
  changes five cells and leaves the sixth at 6.
\<close>

theorem multiplyScalar_partial_example:
  "scaled_buffer (multiplyScalar 1 2 example_state) 1 = Some [2, 4, 6, 8, 10, 6]"
  by (simp add: example_defs multiplyScalar_def multiplyScalar_loop.simps)

text \<open>
  Claim C10. When the buffer holds exactly \<open>rows * cols\<close> elements and
  \<open>rows + cols > rows * cols\<close>, scalar multiply reads outside the buffer: the call ends in
  the fault \<open>OutOfBounds\<close>. The sum \<open>rows + cols\<close> is a value of the C \<^verbatim>\<open>int\<close>, at most
  \<open>INT_MAX\<close>, so that the loop's bound is the sum itself; a sum beyond \<open>INT_MAX\<close> wraps to a
  negative bound and the loop does not run.
\<close>

theorem multiplyScalar_out_of_range:
  assumes buf: "bufs s (data (mats s m)) = Some xs"
    and len: "int (length xs) = sint (rows (mats s m)) * sint (cols (mats s m))"
    and more: "sint (rows (mats s m)) * sint (cols (mats s m)) <
               sint (rows (mats s m)) + sint (cols (mats s m))"
    and fits: "sint (rows (mats s m)) + sint (cols (mats s m)) \<le> INT_MAX"
  shows "multiplyScalar m scalar s = Inl OutOfBounds"
proof -
  let ?M = "mats s m"
  have "0 \<le> sint (rows ?M) + sint (cols ?M)" using len more by linarith
  then have bound: "sint (rows ?M + cols ?M) = sint (rows ?M) + sint (cols ?M)"
    using fits by (rule sint_add_exact)
  have "multiplyScalar_loop ?M scalar 0 (bufs s) = Inl OutOfBounds"
    using buf len more bound by (intro multiplyScalar_loop_overrun[of _ _ xs]) simp_all
  then show ?thesis by (simp add: multiplyScalar_def)
qed

theorem multiplyScalar_out_of_range_witness:
  "multiplyScalar 7 2 example_state = Inl OutOfBounds"
  by (rule multiplyScalar_out_of_range[where xs = "[1, 2, 3]"]) (simp_all add: example_defs)

section \<open>Addition and subtraction: the claims\<close>

text \<open>
  Claim C6. When the shapes of \<open>a\<close> and \<open>b\<close> differ, the call returns false after printing
  the mismatch message and changes nothing else: every struct and every buffer of the
  state is as before.
\<close>

theorem sumMatrices_shape_mismatch:
  "\<not> checkDimensions (mats s a) (mats s b) \<Longrightarrow>
   sumMatrices a b subtraction result s =
     Inr (False, s\<lparr>out := out s @ [''Mismatch in the dimensions when summing'']\<rparr>)"
  by (simp add: sumMatrices_def printf_def)

theorem sumMatrices_shape_mismatch_witness:
  "sumMatrices 1 3 True 4 example_state =
     Inr (False, example_state\<lparr>out := out example_state @ [''Mismatch in the dimensions when summing'']\<rparr>)"
  by (rule sumMatrices_shape_mismatch) (simp add: example_defs)

text \<open>
  Claim C5. For matrices \<open>a\<close> and \<open>b\<close> of equal shape whose number of elements is a value
  of the C \<^verbatim>\<open>int\<close> (at most \<open>INT_MAX\<close>, so that the loop's bound \<open>rows * cols\<close> does not
  wrap), and a result buffer apart from both operands' buffers with room for \<open>rows * cols\<close>
  values, addition returns true, gives the result struct the dimensions of \<open>a\<close>, stores
  \<open>a[i] + b[i]\<close> at every linear index \<open>i\<close> of the result, and leaves the structs and the
  buffers of \<open>a\<close> and \<open>b\<close> as they were.
\<close>

theorem sumMatrices_add:
  assumes shape: "checkDimensions (mats s a) (mats s b)"
    and A: "matrix_at s a xa"
    and B: "matrix_at s b xb"
    and fits: "in_int_range s a"
    and R: "bufs s (data (mats s result)) = Some xr"
    and size: "sint (rows (mats s a)) * sint (cols (mats s a)) \<le> int (length xr)"
    and sep_a: "data (mats s result) \<noteq> data (mats s a)"
    and sep_b: "data (mats s result) \<noteq> data (mats s b)"
  shows "\<exists>s' ys. sumMatrices a b False result s = Inr (True, s') \<and>
           mats s' result = (mats s result)\<lparr>rows := rows (mats s a), cols := cols (mats s a)\<rparr> \<and>
           bufs s' (data (mats s result)) = Some ys \<and>
           (\<forall>i. i < length xa \<longrightarrow> ys ! i = xa ! i + xb ! i) \<and>
           mats s' a = mats s a \<and> mats s' b = mats s b \<and>
           bufs s' (data (mats s a)) = Some xa \<and> bufs s' (data (mats s b)) = Some xb"
proof -
  let ?A = "mats s a" and ?B = "mats s b"
  let ?R = "(mats s result)\<lparr>rows := rows ?A, cols := cols ?A\<rparr>"
  let ?s2 = "set_cols result (cols ?A) (set_rows result (rows ?A) s)"
  let ?n = "sint (rows ?A) * sint (cols ?A)"
  have ra: "result \<noteq> a" and rb: "result \<noteq> b"
    using sep_a sep_b by auto
  have s1: "mats (set_rows result (rows ?A) s) a = ?A"
    using ra by (simp add: set_rows_def)
  have s2: "mats ?s2 a = ?A" "mats ?s2 b = ?B" "mats ?s2 result = ?R" "bufs ?s2 = bufs s"
    using ra rb by (simp_all add: set_rows_def set_cols_def)
  have lens: "int (length xa) = ?n" "int (length xb) = ?n"
    using A B shape by (simp_all add: matrix_at_def checkDimensions_def)
  have "0 \<le> ?n" using lens(1) by linarith
  then have bound: "sint (rows ?A * cols ?A) = ?n"
    using fits by (intro sint_mult_exact) (simp_all add: in_int_range_def)
  have "\<exists>ys. sumMatrices_loop ?A ?B ?R 0 (bufs s) = Inr ((bufs s)(data ?R \<mapsto> ys)) \<and>
          length ys = length xr \<and>
          (\<forall>k. k < length xr \<longrightarrow>
             ys ! k = (if sint (0 :: cint) \<le> int k \<and> int k < sint (rows ?A * cols ?A)
                       then xa ! k + xb ! k else xr ! k))"
    using A B R size sep_a sep_b lens bound
    by (intro sumMatrices_loop_spec) (simp_all add: matrix_at_def)
  then obtain ys where run: "sumMatrices_loop ?A ?B ?R 0 (bufs s) = Inr ((bufs s)(data ?R \<mapsto> ys))"
    and cells: "\<And>k. k < length xr \<Longrightarrow>
             ys ! k = (if int k < ?n then xa ! k + xb ! k else xr ! k)"
    using bound by auto
  let ?s' = "?s2\<lparr>bufs := (bufs s)(data (mats s result) \<mapsto> ys)\<rparr>"
  have res: "sumMatrices a b False result s = Inr (True, ?s')"
    using shape run s2 by (simp add: sumMatrices_def Let_def s1)
  have sums: "\<forall>i. i < length xa \<longrightarrow> ys ! i = xa ! i + xb ! i"
  proof (intro allI impI)
    fix i assume "i < length xa"
    with lens size have "i < length xr" "int i < ?n" by linarith+
    with cells[of i] show "ys ! i = xa ! i + xb ! i" by simp
  qed
  have frame: "bufs ?s' (data ?A) = Some xa" "bufs ?s' (data ?B) = Some xb"
    using A B sep_a sep_b by (simp_all add: matrix_at_def)
  show ?thesis
    using res sums frame s2 by (intro exI[of _ ?s'] exI[of _ ys]) simp
qed

theorem sumMatrices_add_witness:
  "\<exists>s' ys. sumMatrices 1 2 False 4 example_state = Inr (True, s') \<and>
     mats s' 4 = (mats example_state 4)\<lparr>rows := rows (mats example_state 1),
                                          cols := cols (mats example_state 1)\<rparr> \<and>
     bufs s' (data (mats example_state 4)) = Some ys \<and>
     (\<forall>i. i < length [1, 2, 3, 4, 5, 6 :: real] \<longrightarrow>
        ys ! i = [1, 2, 3, 4, 5, 6] ! i + [6, 5, 4, 3, 2, 1] ! i) \<and>
     mats s' 1 = mats example_state 1 \<and> mats s' 2 = mats example_state 2 \<and>
     bufs s' (data (mats example_state 1)) = Some [1, 2, 3, 4, 5, 6] \<and>
     bufs s' (data (mats example_state 2)) = Some [6, 5, 4, 3, 2, 1]"
  by (rule sumMatrices_add[where xr = "[0, 0, 0, 0, 0, 0]"]) (simp_all add: example_defs)

text \<open>
  Claim C4. For matrices of equal shape, subtraction stores \<open>a[i] - b[i]\<close> at every linear
  index. The code negates \<open>b\<close> with the scalar multiply, which stops at \<open>rows + cols\<close>, and
  then adds: on the 2 x 3 matrices 1 and 2 of the example state the last cell of the result
  is \<open>6 + 1 = 7\<close> where the difference is \<open>6 - 1 = 5\<close>.
\<close>

theorem sumMatrices_subtract_example:
  "returned (sumMatrices 1 2 True 4 example_state) = Some True \<and>
   buffer_after (sumMatrices 1 2 True 4 example_state) 4 = Some [- 5, - 3, - 1, 1, 3, 7] \<and>
   bufs example_state 1 = Some [1, 2, 3, 4, 5, 6] \<and>
   bufs example_state 2 = Some [6, 5, 4, 3, 2, 1]"
  by (simp add: example_defs sumMatrices_def multiplyScalar_def
      multiplyScalar_loop.simps sumMatrices_loop.simps)

text \<open>
  Claim C3, as stated: subtraction leaves both inputs unmodified. It fails for \<open>b\<close>: the code
  negates the buffer of \<open>b\<close> in place before it adds. After subtracting matrix 2 from
  matrix 1 in the example state, the buffer of matrix 2 has changed.
\<close>

theorem sumMatrices_subtract_mutates_b:
  "checkDimensions (mats example_state 1) (mats example_state 2) \<and>
   bufs example_state 2 = Some [6, 5, 4, 3, 2, 1] \<and>
   buffer_after (sumMatrices 1 2 True 4 example_state) 2 = Some [- 6, - 5, - 4, - 3, - 2, 1] \<and>
   buffer_after (sumMatrices 1 2 True 4 example_state) 2 \<noteq> bufs example_state 2"
  by (simp add: example_defs sumMatrices_def multiplyScalar_def
      multiplyScalar_loop.simps sumMatrices_loop.simps)

text \<open>
  Claim C3, amended: for matrices \<open>a\<close> and \<open>b\<close> of equal shape with \<open>rows + cols \<le> rows * cols\<close>,
  held in three buffers apart from each other (those of \<open>a\<close>, of \<open>b\<close> and of the result),
  subtraction returns true and leaves the struct and the buffer of \<open>a\<close> and the struct of
  \<open>b\<close> as they were; the buffer of \<open>b\<close> keeps its length, and nothing is said of its
  contents. No bound on the size is needed: a bound of a loop that wraps is smaller than
  the number of elements, so the loops stay inside the buffers.
\<close>

theorem sumMatrices_subtract_frame:
  assumes shape: "checkDimensions (mats s a) (mats s b)"
    and A: "matrix_at s a xa"
    and B: "matrix_at s b xb"
    and R: "bufs s (data (mats s result)) = Some xr"
    and size: "sint (rows (mats s a)) * sint (cols (mats s a)) \<le> int (length xr)"
    and inside: "sint (rows (mats s b)) + sint (cols (mats s b)) \<le>
                 sint (rows (mats s b)) * sint (cols (mats s b))"
    and sep_a: "data (mats s result) \<noteq> data (mats s a)"
    and sep_b: "data (mats s result) \<noteq> data (mats s b)"
    and sep_ab: "data (mats s a) \<noteq> data (mats s b)"
  shows "\<exists>s' yb. sumMatrices a b True result s = Inr (True, s') \<and>
           mats s' a = mats s a \<and> mats s' b = mats s b \<and>
           bufs s' (data (mats s a)) = Some xa \<and>
           bufs s' (data (mats s b)) = Some yb \<and> length yb = length xb"
proof -
  let ?A = "mats s a" and ?B = "mats s b"
  let ?R = "(mats s result)\<lparr>rows := rows ?A, cols := cols ?A\<rparr>"
  let ?s2 = "set_cols result (cols ?A) (set_rows result (rows ?A) s)"
  let ?n = "sint (rows ?A) * sint (cols ?A)"
  have ra: "result \<noteq> a" and rb: "result \<noteq> b"
    using sep_a sep_b by auto
  have s1: "mats (set_rows result (rows ?A) s) a = ?A"
    using ra by (simp add: set_rows_def)
  have s2: "mats ?s2 a = ?A" "mats ?s2 b = ?B" "mats ?s2 result = ?R" "bufs ?s2 = bufs s"
    using ra rb by (simp_all add: set_rows_def set_cols_def)
  have same: "rows ?B = rows ?A" "cols ?B = cols ?A"
    using shape by (simp_all add: checkDimensions_def)
  have lens: "int (length xa) = ?n" "int (length xb) = ?n"
    using A B same by (simp_all add: matrix_at_def)
  have pos: "0 < sint (rows ?A)" "0 < sint (cols ?A)"
    using A by (simp_all add: matrix_at_def)
  have "0 \<le> ?n" using lens(1) by linarith
  then have prod_le: "sint (rows ?A * cols ?A) \<le> ?n" by (rule sint_mult_le)
  have "0 \<le> sint (rows ?A) + sint (cols ?A)" using pos by linarith
  then have "sint (rows ?A + cols ?A) \<le> sint (rows ?A) + sint (cols ?A)" by (rule sint_add_le)
  then have sum_le: "sint (rows ?B + cols ?B) \<le> int (length xb)"
    using inside same lens by simp
  have "\<exists>yb. multiplyScalar_loop ?B (- 1) 0 (bufs s) = Inr ((bufs s)(data ?B \<mapsto> yb)) \<and>
          length yb = length xb \<and>
          (\<forall>k. k < length xb \<longrightarrow>
             yb ! k = (if sint (0 :: cint) \<le> int k \<and> int k < sint (rows ?B + cols ?B)
                       then xb ! k * (- 1) else xb ! k))"
    using B sum_le by (intro multiplyScalar_loop_spec) (simp_all add: matrix_at_def)
  then obtain yb where neg: "multiplyScalar_loop ?B (- 1) 0 (bufs s) = Inr ((bufs s)(data ?B \<mapsto> yb))"
    and len_yb: "length yb = length xb"
    by auto
  let ?h3 = "(bufs s)(data ?B \<mapsto> yb)"
  let ?s3 = "?s2\<lparr>bufs := ?h3\<rparr>"
  have scaled: "multiplyScalar b (- 1) ?s2 = Inr ?s3"
    using neg s2 by (simp add: multiplyScalar_def)
  have "\<exists>ys. sumMatrices_loop ?A ?B ?R 0 ?h3 = Inr (?h3(data ?R \<mapsto> ys)) \<and>
          length ys = length xr \<and>
          (\<forall>k. k < length xr \<longrightarrow>
             ys ! k = (if sint (0 :: cint) \<le> int k \<and> int k < sint (rows ?A * cols ?A)
                       then xa ! k + yb ! k else xr ! k))"
    using A R size sep_a sep_b sep_ab lens len_yb prod_le
    by (intro sumMatrices_loop_spec) (simp_all add: matrix_at_def)
  then obtain ys where run: "sumMatrices_loop ?A ?B ?R 0 ?h3 = Inr (?h3(data ?R \<mapsto> ys))"
    by auto
  let ?s' = "?s3\<lparr>bufs := ?h3(data (mats s result) \<mapsto> ys)\<rparr>"
  have res: "sumMatrices a b True result s = Inr (True, ?s')"
    using shape run s2 scaled by (simp add: sumMatrices_def Let_def s1)
  have frame: "bufs ?s' (data ?A) = Some xa" "bufs ?s' (data ?B) = Some yb"
    using A sep_a sep_b sep_ab by (simp_all add: matrix_at_def)
  show ?thesis
    using res frame s2 len_yb by (intro exI[of _ ?s'] exI[of _ yb]) simp
qed

theorem sumMatrices_subtract_frame_witness:
  "\<exists>s' yb. sumMatrices 1 2 True 4 example_state = Inr (True, s') \<and>
     mats s' 1 = mats example_state 1 \<and> mats s' 2 = mats example_state 2 \<and>
     bufs s' (data (mats example_state 1)) = Some [1, 2, 3, 4, 5, 6] \<and>
     bufs s' (data (mats example_state 2)) = Some yb \<and>
     length yb = length [6, 5, 4, 3, 2, 1 :: real]"
  by (rule sumMatrices_subtract_frame[where xr = "[0, 0, 0, 0, 0, 0]"])
    (simp_all add: example_defs)

section \<open>Matrix product: incompatible dimensions\<close>

text \<open>
  Claim C7. When \<open>a.cols\<close> differs from \<open>b.rows\<close>, the product returns false after printing
  the incompatibility message and changes nothing else: every struct and every buffer of
  the state is as before.
\<close>

theorem multiplyMatrices_incompatible:
  "cols (mats s a) \<noteq> rows (mats s b) \<Longrightarrow>
   multiplyMatrices a b result s =
     Inr (False, s\<lparr>out := out s @ [''Incompatible dimensions in matrix multiplication'']\<rparr>)"
  by (simp add: multiplyMatrices_def printf_def)

theorem multiplyMatrices_incompatible_witness:
  "multiplyMatrices 1 2 5 example_state =
     Inr (False, example_state\<lparr>out := out example_state @
        [''Incompatible dimensions in matrix multiplication'']\<rparr>)"
  by (rule multiplyMatrices_incompatible) (simp add: example_defs)

section \<open>Transpose: the claims\<close>

text \<open>
  Claim C8. For a square matrix whose number of elements is a value of the C \<^verbatim>\<open>int\<close> (at
  most \<open>INT_MAX\<close>, so that no index \<open>i * cols\<close> wraps), transpose returns true and works in
  place: no block is allocated (the allocator's answer is not used), the only buffer
  written is the matrix's own, the result struct becomes a copy of the input struct (same
  dimensions, same \<^verbatim>\<open>data\<close> pointer), and afterwards the cell \<open>(i, j)\<close> of the shared buffer
  holds what the cell \<open>(j, i)\<close> held before; for \<open>i = j\<close> this says that the diagonal is as
  before.
\<close>

theorem transposeMatrix_square_in_place:
  assumes "matrix_at s matrix xs" and "isSquare (mats s matrix)" and "in_int_range s matrix"
  shows "\<exists>ys. transposeMatrix matrix result malloc s =
              Inr (True, s\<lparr>mats := (mats s)(result := mats s matrix),
                           bufs := (bufs s)(data (mats s matrix) \<mapsto> ys)\<rparr>) \<and>
           length ys = length xs \<and>
           (\<forall>i j. 0 \<le> i \<and> i < sint (rows (mats s matrix)) \<and>
                  0 \<le> j \<and> j < sint (cols (mats s matrix)) \<longrightarrow>
              ys ! nat (i * sint (cols (mats s matrix)) + j) =
              xs ! nat (j * sint (cols (mats s matrix)) + i))"
  using transposeMatrix_square_run[OF assms, of result malloc] by (simp add: cell_def)

theorem transposeMatrix_square_in_place_witness:
  "\<exists>ys. transposeMatrix 6 8 None example_state =
          Inr (True, example_state\<lparr>mats := (mats example_state)(8 := mats example_state 6),
                 bufs := (bufs example_state)(data (mats example_state 6) \<mapsto> ys)\<rparr>) \<and>
     length ys = length [1, 2, 3, 4 :: real] \<and>
     (\<forall>i j. 0 \<le> i \<and> i < sint (rows (mats example_state 6)) \<and>
            0 \<le> j \<and> j < sint (cols (mats example_state 6)) \<longrightarrow>
        ys ! nat (i * sint (cols (mats example_state 6)) + j) =
        [1, 2, 3, 4] ! nat (j * sint (cols (mats example_state 6)) + i))"
  by (rule transposeMatrix_square_in_place) (simp_all add: example_defs)

text \<open>
  Claim C9. Transposing twice gives back the shape and the values of the matrix, whether
  it is square or not, when its number of elements is a value of the C \<^verbatim>\<open>int\<close> (at most
  \<open>INT_MAX\<close>, so that neither an index nor the size asked of \<^verbatim>\<open>malloc\<close> wraps). The first
  call transposes \<open>matrix\<close> into the struct \<open>r1\<close>, the second transposes \<open>r1\<close> into \<open>r2\<close>;
  \<open>r1\<close> is a struct other than the input's and \<open>r2\<close> one other than \<open>r1\<close>, and both
  allocations succeed with new blocks (they are used only when the matrix is not square).
  Both calls return true, \<open>r2\<close> has the dimensions of \<open>matrix\<close> and its buffer holds the
  original values; for a square matrix that buffer is the matrix's own, restored by the
  second in-place transpose.
\<close>

theorem transposeMatrix_twice:
  assumes A: "matrix_at s matrix xs" and fits: "in_int_range s matrix"
    and r1: "r1 \<noteq> matrix" and r2: "r2 \<noteq> r1"
    and f1: "bufs s p1 = None" and f2: "bufs s p2 = None" and p12: "p1 \<noteq> p2"
  shows "\<exists>s1 s2. transposeMatrix matrix r1 (Some (p1, junk1)) s = Inr (True, s1) \<and>
           transposeMatrix r1 r2 (Some (p2, junk2)) s1 = Inr (True, s2) \<and>
           rows (mats s2 r2) = rows (mats s matrix) \<and>
           cols (mats s2 r2) = cols (mats s matrix) \<and>
           bufs s2 (data (mats s2 r2)) = Some xs \<and>
           (isSquare (mats s matrix) \<longrightarrow> data (mats s2 r2) = data (mats s matrix))"
proof -
  let ?M = "mats s matrix"
  let ?c = "sint (cols ?M)" and ?r = "sint (rows ?M)"
  have buf: "bufs s (data ?M) = Some xs" and len: "int (length xs) = ?r * ?c"
    and pos: "0 < ?r" "0 < ?c" and small: "?r * ?c \<le> INT_MAX"
    using A fits by (simp_all add: matrix_at_def in_int_range_def)
  show ?thesis
  proof (cases "isSquare ?M")
    case True
    then have rc: "rows ?M = cols ?M" by (simp add: isSquare_def)
    obtain ys where run1: "transposeMatrix matrix r1 (Some (p1, junk1)) s =
          Inr (True, s\<lparr>mats := (mats s)(r1 := ?M), bufs := (bufs s)(data ?M \<mapsto> ys)\<rparr>)"
      and len1: "length ys = length xs"
      and cells1: "\<And>i j. 0 \<le> i \<Longrightarrow> i < ?c \<Longrightarrow> 0 \<le> j \<Longrightarrow> j < ?c \<Longrightarrow>
                     cell ?c ys i j = cell ?c xs j i"
      using transposeMatrix_square_run[OF A True fits, of r1 "Some (p1, junk1)"] rc by auto
    let ?s1 = "s\<lparr>mats := (mats s)(r1 := ?M), bufs := (bufs s)(data ?M \<mapsto> ys)\<rparr>"
    have A1: "matrix_at ?s1 r1 ys"
      using pos len len1 by (simp add: matrix_at_def)
    have fits1: "in_int_range ?s1 r1"
      using small by (simp add: in_int_range_def)
    have sq1: "isSquare (mats ?s1 r1)" using True by simp
    obtain zs where run2: "transposeMatrix r1 r2 (Some (p2, junk2)) ?s1 =
          Inr (True, ?s1\<lparr>mats := (mats ?s1)(r2 := mats ?s1 r1),
                          bufs := (bufs ?s1)(data (mats ?s1 r1) \<mapsto> zs)\<rparr>)"
      and len2: "length zs = length ys"
      and cells2: "\<And>i j. 0 \<le> i \<Longrightarrow> i < ?c \<Longrightarrow> 0 \<le> j \<Longrightarrow> j < ?c \<Longrightarrow>
                     cell ?c zs i j = cell ?c ys j i"
      using transposeMatrix_square_run[OF A1 sq1 fits1, of r2 "Some (p2, junk2)"] rc by auto
    have "zs = xs"
    proof (rule cells_eqI[OF len _ pos(2)])
      show "length zs = length xs" using len1 len2 by simp
    next
      fix a b assume "0 \<le> a" "a < ?r" "0 \<le> b" "b < ?c"
      then show "cell ?c zs a b = cell ?c xs a b"
        using rc by (simp add: cells1 cells2)
    qed
    with run1 run2 True show ?thesis by simp
  next
    case False
    then have rc: "rows ?M \<noteq> cols ?M" by (simp add: isSquare_def)
    let ?R1 = "\<lparr>rows = cols ?M, cols = rows ?M, data = p1\<rparr>"
    obtain ys where run1: "transposeMatrix matrix r1 (Some (p1, junk1)) s =
          Inr (True, s\<lparr>mats := (mats s)(r1 := ?R1), bufs := (bufs s)(p1 \<mapsto> ys)\<rparr>)"
      and len1: "int (length ys) = ?c * ?r"
      and cells1: "\<And>i j. 0 \<le> i \<Longrightarrow> i < ?r \<Longrightarrow> 0 \<le> j \<Longrightarrow> j < ?c \<Longrightarrow>
                     cell ?r ys j i = cell ?c xs i j"
      using transposeMatrix_rectangular_run[OF A False fits r1 f1, of junk1] by auto
    let ?s1 = "s\<lparr>mats := (mats s)(r1 := ?R1), bufs := (bufs s)(p1 \<mapsto> ys)\<rparr>"
    have A1: "matrix_at ?s1 r1 ys"
      using pos len1 by (simp add: matrix_at_def)
    have fits1: "in_int_range ?s1 r1"
      using small by (simp add: in_int_range_def mult.commute)
    have nsq1: "\<not> isSquare (mats ?s1 r1)" using rc by (auto simp: isSquare_def)
    have f2': "bufs ?s1 p2 = None" using f2 p12 by simp
    let ?R2 = "\<lparr>rows = rows ?M, cols = cols ?M, data = p2\<rparr>"
    obtain zs where run2: "transposeMatrix r1 r2 (Some (p2, junk2)) ?s1 =
          Inr (True, ?s1\<lparr>mats := (mats ?s1)(r2 := ?R2), bufs := (bufs ?s1)(p2 \<mapsto> zs)\<rparr>)"
      and len2: "int (length zs) = ?r * ?c"
      and cells2: "\<And>i j. 0 \<le> i \<Longrightarrow> i < ?c \<Longrightarrow> 0 \<le> j \<Longrightarrow> j < ?r \<Longrightarrow>
                     cell ?c zs j i = cell ?r ys i j"
      using transposeMatrix_rectangular_run[OF A1 nsq1 fits1 r2 f2', of junk2] by auto
    have "zs = xs"
    proof (rule cells_eqI[OF len _ pos(2)])
      show "length zs = length xs" using len len2 by simp
    next
      fix a b assume "0 \<le> a" "a < ?r" "0 \<le> b" "b < ?c"
      then show "cell ?c zs a b = cell ?c xs a b"
        by (simp add: cells1 cells2)
    qed
    with run1 run2 False show ?thesis by simp
  qed
qed

theorem transposeMatrix_twice_witness:
  "(\<exists>s1 s2. transposeMatrix 6 8 (Some (10, \<lambda>_. 0)) example_state = Inr (True, s1) \<and>
      transposeMatrix 8 9 (Some (11, \<lambda>_. 0)) s1 = Inr (True, s2) \<and>
      rows (mats s2 9) = rows (mats example_state 6) \<and>
      cols (mats s2 9) = cols (mats example_state 6) \<and>
      bufs s2 (data (mats s2 9)) = Some [1, 2, 3, 4] \<and>
      (isSquare (mats example_state 6) \<longrightarrow> data (mats s2 9) = data (mats example_state 6))) \<and>
   (\<exists>s1 s2. transposeMatrix 1 8 (Some (10, \<lambda>_. 0)) example_state = Inr (True, s1) \<and>
      transposeMatrix 8 9 (Some (11, \<lambda>_. 0)) s1 = Inr (True, s2) \<and>
      rows (mats s2 9) = rows (mats example_state 1) \<and>
      cols (mats s2 9) = cols (mats example_state 1) \<and>
      bufs s2 (data (mats s2 9)) = Some [1, 2, 3, 4, 5, 6] \<and>
      (isSquare (mats example_state 1) \<longrightarrow> data (mats s2 9) = data (mats example_state 1)))"
proof (rule conjI)
  show "\<exists>s1 s2. transposeMatrix 6 8 (Some (10, \<lambda>_. 0)) example_state = Inr (True, s1) \<and>
      transposeMatrix 8 9 (Some (11, \<lambda>_. 0)) s1 = Inr (True, s2) \<and>
      rows (mats s2 9) = rows (mats example_state 6) \<and>
      cols (mats s2 9) = cols (mats example_state 6) \<and>
      bufs s2 (data (mats s2 9)) = Some [1, 2, 3, 4] \<and>
      (isSquare (mats example_state 6) \<longrightarrow> data (mats s2 9) = data (mats example_state 6))"
    by (rule transposeMatrix_twice) (simp_all add: example_defs)
next
  show "\<exists>s1 s2. transposeMatrix 1 8 (Some (10, \<lambda>_. 0)) example_state = Inr (True, s1) \<and>
      transposeMatrix 8 9 (Some (11, \<lambda>_. 0)) s1 = Inr (True, s2) \<and>
      rows (mats s2 9) = rows (mats example_state 1) \<and>
      cols (mats s2 9) = cols (mats example_state 1) \<and>
      bufs s2 (data (mats s2 9)) = Some [1, 2, 3, 4, 5, 6] \<and>
      (isSquare (mats example_state 1) \<longrightarrow> data (mats s2 9) = data (mats example_state 1))"
    by (rule transposeMatrix_twice) (simp_all add: example_defs)
qed

section \<open>Further properties\<close>

text \<open>
  The elements of the product. For \<open>a\<close> and \<open>b\<close> per the data model with
  \<open>a.cols = b.rows\<close>, and a result buffer of \<open>a.rows * b.cols\<close> values apart from both
  operands' buffers, the three numbers of elements being values of the C \<^verbatim>\<open>int\<close>, the
  product returns true, the result has \<open>b.cols\<close> columns and keeps its buffer, the cell
  \<open>r * b.cols + c\<close> of that buffer holds the sum over \<open>k\<close> of \<open>a[r][k] * b[k][c]\<close>, and the
  operands are as they were.
\<close>

theorem multiplyMatrices_elements:
  assumes A: "matrix_at s a xa" and B: "matrix_at s b xb"
    and fits_a: "in_int_range s a" and fits_b: "in_int_range s b"
    and inner: "cols (mats s a) = rows (mats s b)"
    and R: "bufs s (data (mats s result)) = Some xr"
    and size: "int (length xr) = sint (rows (mats s a)) * sint (cols (mats s b))"
    and fits_r: "sint (rows (mats s a)) * sint (cols (mats s b)) \<le> INT_MAX"
    and sep_a: "data (mats s result) \<noteq> data (mats s a)"
    and sep_b: "data (mats s result) \<noteq> data (mats s b)"
  shows "\<exists>s' ys. multiplyMatrices a b result s = Inr (True, s') \<and>
           cols (mats s' result) = cols (mats s b) \<and>
           data (mats s' result) = data (mats s result) \<and>
           bufs s' (data (mats s result)) = Some ys \<and> length ys = length xr \<and>
           (\<forall>r c. 0 \<le> r \<and> r < sint (rows (mats s a)) \<and> 0 \<le> c \<and> c < sint (cols (mats s b)) \<longrightarrow>
              ys ! nat (r * sint (cols (mats s b)) + c) =
                (\<Sum>k = 0..<sint (cols (mats s a)).
                   xa ! nat (r * sint (cols (mats s a)) + k) *
                   xb ! nat (k * sint (cols (mats s b)) + c))) \<and>
           mats s' a = mats s a \<and> mats s' b = mats s b \<and>
           bufs s' (data (mats s a)) = Some xa \<and> bufs s' (data (mats s b)) = Some xb"
proof -
  let ?A = "mats s a" and ?B = "mats s b"
  let ?R = "(mats s result)\<lparr>rows := cols ?A, cols := cols ?B\<rparr>"
  have ra: "result \<noteq> a" and rb: "result \<noteq> b"
    using sep_a sep_b by auto
  have bufA: "bufs s (data ?A) = Some xa"
    and lenA: "int (length xa) = sint (rows ?A) * sint (cols ?A)"
    and smallA: "sint (rows ?A) * sint (cols ?A) \<le> INT_MAX"
    and bufB: "bufs s (data ?B) = Some xb"
    and lenB: "int (length xb) = sint (cols ?A) * sint (cols ?B)"
    and smallB: "sint (cols ?A) * sint (cols ?B) \<le> INT_MAX"
    using A B fits_a fits_b inner by (simp_all add: matrix_at_def in_int_range_def)
  have "\<exists>ys. multiplyMatrices_r ?A ?B ?R 0 (bufs s) = Inr ((bufs s)(data ?R \<mapsto> ys)) \<and>
          length ys = length xr \<and>
          (\<forall>r' c'. 0 \<le> r' \<and> r' < sint (rows ?A) \<and> 0 \<le> c' \<and> c' < sint (cols ?B) \<longrightarrow>
             cell (sint (cols ?B)) ys r' c' =
               (if sint (0 :: cint) \<le> r' then dot ?A ?B xa xb r' c' 0
                else cell (sint (cols ?B)) xr r' c'))"
    using bufA lenA smallA bufB lenB smallB R size fits_r sep_a sep_b
    by (intro multiplyMatrices_r_spec) simp_all
  then obtain ys where run: "multiplyMatrices_r ?A ?B ?R 0 (bufs s) =
        Inr ((bufs s)(data (mats s result) \<mapsto> ys))"
    and lenys: "length ys = length xr"
    and cells: "\<And>r c. 0 \<le> r \<Longrightarrow> r < sint (rows ?A) \<Longrightarrow> 0 \<le> c \<Longrightarrow> c < sint (cols ?B) \<Longrightarrow>
             cell (sint (cols ?B)) ys r c = dot ?A ?B xa xb r c 0"
    by auto
  let ?s' = "s\<lparr>mats := (mats s)(result := ?R),
                 bufs := (bufs s)(data (mats s result) \<mapsto> ys)\<rparr>"
  have res: "multiplyMatrices a b result s = Inr (True, ?s')"
    using inner[symmetric] run ra rb ra[symmetric] rb[symmetric]
    by (simp add: multiplyMatrices_def Let_def set_rows_def set_cols_def)
  have elements: "\<forall>r c. 0 \<le> r \<and> r < sint (rows ?A) \<and> 0 \<le> c \<and> c < sint (cols ?B) \<longrightarrow>
              ys ! nat (r * sint (cols ?B) + c) =
                (\<Sum>k = 0..<sint (cols ?A).
                   xa ! nat (r * sint (cols ?A) + k) * xb ! nat (k * sint (cols ?B) + c))"
    using cells by (simp add: cell_def dot_def)
  have frame: "mats ?s' a = ?A" "mats ?s' b = ?B"
    "bufs ?s' (data ?A) = Some xa" "bufs ?s' (data ?B) = Some xb"
    using ra rb sep_a sep_b bufA bufB by simp_all
  show ?thesis
    using res lenys elements frame by (intro exI[of _ ?s'] exI[of _ ys]) simp
qed

theorem multiplyMatrices_elements_witness:
  "\<exists>s' ys. multiplyMatrices 1 3 5 example_state = Inr (True, s') \<and>
     cols (mats s' 5) = cols (mats example_state 3) \<and>
     data (mats s' 5) = data (mats example_state 5) \<and>
     bufs s' (data (mats example_state 5)) = Some ys \<and>
     length ys = length [0, 0, 0, 0 :: real] \<and>
     (\<forall>r c. 0 \<le> r \<and> r < sint (rows (mats example_state 1)) \<and>
            0 \<le> c \<and> c < sint (cols (mats example_state 3)) \<longrightarrow>
        ys ! nat (r * sint (cols (mats example_state 3)) + c) =
          (\<Sum>k = 0..<sint (cols (mats example_state 1)).
             [1, 2, 3, 4, 5, 6] ! nat (r * sint (cols (mats example_state 1)) + k) *
             [7, 8, 9, 10, 11, 12] ! nat (k * sint (cols (mats example_state 3)) + c))) \<and>
     mats s' 1 = mats example_state 1 \<and> mats s' 3 = mats example_state 3 \<and>
     bufs s' (data (mats example_state 1)) = Some [1, 2, 3, 4, 5, 6] \<and>
     bufs s' (data (mats example_state 3)) = Some [7, 8, 9, 10, 11, 12]"
  by (rule multiplyMatrices_elements) (simp_all add: example_defs)

text \<open>
  Transpose of a matrix that is not square and whose number of elements is a value of the
  C \<^verbatim>\<open>int\<close>, into a result struct other than the input's, when the allocation succeeds
  with a new block \<open>p\<close>: the call returns true, the input is as it was, the result struct
  has the swapped dimensions and points to \<open>p\<close>, and the cell \<open>(j, i)\<close> of the new buffer
  holds the cell \<open>(i, j)\<close> of the input.
\<close>

theorem transposeMatrix_rectangular:
  assumes "matrix_at s matrix xs" and "\<not> isSquare (mats s matrix)"
    and "in_int_range s matrix" and "result \<noteq> matrix" and "bufs s p = None"
  shows "\<exists>ys. transposeMatrix matrix result (Some (p, junk)) s =
              Inr (True, s\<lparr>mats := (mats s)(result :=
                                \<lparr>rows = cols (mats s matrix), cols = rows (mats s matrix), data = p\<rparr>),
                           bufs := (bufs s)(p \<mapsto> ys)\<rparr>) \<and>
           int (length ys) = sint (cols (mats s matrix)) * sint (rows (mats s matrix)) \<and>
           (\<forall>i j. 0 \<le> i \<and> i < sint (rows (mats s matrix)) \<and>
                  0 \<le> j \<and> j < sint (cols (mats s matrix)) \<longrightarrow>
              ys ! nat (j * sint (rows (mats s matrix)) + i) =
              xs ! nat (i * sint (cols (mats s matrix)) + j))"
  using transposeMatrix_rectangular_run[OF assms, of junk] by (simp add: cell_def)

theorem transposeMatrix_rectangular_witness:
  "\<exists>ys. transposeMatrix 7 8 (Some (10, \<lambda>_. 0)) example_state =
          Inr (True, example_state\<lparr>mats := (mats example_state)(8 :=
                        \<lparr>rows = cols (mats example_state 7), cols = rows (mats example_state 7),
                           data = 10\<rparr>),
                 bufs := (bufs example_state)(10 \<mapsto> ys)\<rparr>) \<and>
     int (length ys) = sint (cols (mats example_state 7)) * sint (rows (mats example_state 7)) \<and>
     (\<forall>i j. 0 \<le> i \<and> i < sint (rows (mats example_state 7)) \<and>
            0 \<le> j \<and> j < sint (cols (mats example_state 7)) \<longrightarrow>
        ys ! nat (j * sint (rows (mats example_state 7)) + i) =
        [1, 2, 3] ! nat (i * sint (cols (mats example_state 7)) + j))"
  by (rule transposeMatrix_rectangular) (simp_all add: example_defs)

text \<open>
  Transpose of a matrix that is not square when the allocation fails: the call returns
  false after printing its message. No buffer changes and no struct but the result's:
  the result struct has the swapped dimensions and a null \<^verbatim>\<open>data\<close> pointer.
\<close>

theorem transposeMatrix_allocation_failure:
  assumes "\<not> isSquare (mats s matrix)" and "result \<noteq> matrix"
  shows "transposeMatrix matrix result None s =
           Inr (False, s\<lparr>mats := (mats s)(result :=
                             \<lparr>rows = cols (mats s matrix), cols = rows (mats s matrix), data = NULL\<rparr>),
                         out := out s @
                           [''Memory allocation failed for transposed matrix.'' @ [CHR 0x0A]]\<rparr>)"
proof -
  have same: "(mats s result)\<lparr>rows := cols (mats s matrix), cols := rows (mats s matrix), data := NULL\<rparr> =
        \<lparr>rows = cols (mats s matrix), cols = rows (mats s matrix), data = NULL\<rparr>"
    by simp
  show ?thesis
    using assms
    by (simp add: transposeMatrix_def Let_def set_rows_def set_cols_def set_data_def printf_def same)
qed

theorem transposeMatrix_allocation_failure_witness:
  "transposeMatrix 1 8 None example_state =
     Inr (False, example_state\<lparr>mats := (mats example_state)(8 :=
                     \<lparr>rows = cols (mats example_state 1), cols = rows (mats example_state 1),
                        data = NULL\<rparr>),
                   out := out example_state @
                     [''Memory allocation failed for transposed matrix.'' @ [CHR 0x0A]]\<rparr>)"
  by (rule transposeMatrix_allocation_failure) (simp_all add: example_defs)

end
